theory Spec2Isabelle
  imports Complex_Main
begin

section \<open>Lidar sensor model, ray casting and importance weighting\<close>

text \<open>
  A shallow embedding of the sensor-fusion notebook: the class \<open>LidarSensor\<close> and the
  functions \<open>get_distance\<close>, \<open>shoot_rays\<close>, \<open>importance\<close> and \<open>sensor_fusion\<close>.

  Conventions of the embedding.
  \<^item> A Python or numpy float is a \<open>real\<close>. Where the rounding of float64 decides what
    the program returns, the float operation is a field of the record \<open>fpu\<close>, an
    argument of the functions that use it: numpy's \<open>cos\<close> and \<open>sin\<close> (they place the
    end cell of a ray), the multiplication of the running product of likelihoods (it
    underflows to zero), and the sum and the division that normalise the weights. What
    is proved holds for every \<open>fpu\<close>, or for those that satisfy the hypotheses stated.
    The other float operations are exact in the model.
  \<^item> The division that normalises the weights returns a value of \<open>npfloat\<close>, which has
    numpy's \<open>inf\<close> and \<open>nan\<close> for a zero divisor.
  \<^item> Python ints are \<open>int\<close>. The sensor's \<open>max_range\<close> is a Python int, as in the
    notebook (\<open>max_sensor_range = 100\<close>) and as \<open>np.random.randint\<close> expects.
  \<^item> Exceptions are values of \<open>error\<close>; a function that can raise returns
    \<open>error + 'a\<close>.
  \<^item> The draws of numpy's global random generator are explicit arguments: the
    uniform draw \<open>p\<close> of \<open>np.random.rand()\<close>, the standard normal variate \<open>z\<close>
    behind \<open>np.random.normal\<close>, and the raw integer draw \<open>d\<close> behind
    \<open>np.random.randint\<close>.
  \<^item> The line rasteriser (the third-party package \<open>bresenham\<close>) is an argument
    \<open>line\<close> of the ray caster, so that what is proved of the ray caster holds for
    every enumeration of cells, or for those that stay within the box of the two end
    cells where that is needed.
\<close>

subsection \<open>Python and numpy values\<close>

datatype error = ZeroDivisionError | ValueError | IndexError | TypeError | OverflowError

text \<open>A Python number is an int or a float; \<open>py_float\<close> is its numeric value.\<close>

datatype pynum = PyInt int | PyFloat real

fun py_float :: "pynum \<Rightarrow> real" where
  "py_float (PyInt i) = real_of_int i"
| "py_float (PyFloat r) = r"

fun is_pyint :: "pynum \<Rightarrow> bool" where
  "is_pyint (PyInt i) = True"
| "is_pyint (PyFloat r) = False"

fun py_int_val :: "pynum \<Rightarrow> int" where
  "py_int_val (PyInt i) = i"
| "py_int_val (PyFloat r) = 0"

text \<open>
  The float64 operations whose rounding the model keeps: \<open>np.cos\<close>, \<open>np.sin\<close>, the
  product of two floats, the quotient of two floats (for a divisor that is not zero)
  and \<open>np.sum\<close> of a float64 array.
\<close>

record fpu =
  fp_cos :: "real \<Rightarrow> real"
  fp_sin :: "real \<Rightarrow> real"
  fp_mul :: "real \<Rightarrow> real \<Rightarrow> real"
  fp_div :: "real \<Rightarrow> real \<Rightarrow> real"
  fp_sum :: "real list \<Rightarrow> real"

text \<open>
  \<open>w *= p\<close> with a float \<open>p\<close>: the product is a float whatever \<open>w\<close> was, and it is
  rounded.
\<close>

definition py_imul :: "fpu \<Rightarrow> pynum \<Rightarrow> real \<Rightarrow> pynum" where
  "py_imul fp w p = PyFloat (fp_mul fp (py_float w) p)"

text \<open>
  The conversion of a Python int to a float, which \<open>max_range * np.cos(angle)\<close> makes:
  an int that rounds to \<open>2 ^ 1024\<close> or beyond raises \<open>OverflowError\<close>. (The
  rounding of an int beyond \<open>2 ^ 53\<close> is not modelled.)
\<close>

definition float_range :: "int \<Rightarrow> bool" where
  "float_range i = (\<bar>i\<bar> < 2 ^ 1024 - 2 ^ 970)"

definition py_float_of_int :: "int \<Rightarrow> error + real" where
  "py_float_of_int i = (if float_range i then Inr (real_of_int i) else Inl OverflowError)"

text \<open>\<open>int(r)\<close> of a float truncates towards zero.\<close>

definition py_int :: "real \<Rightarrow> int" where
  "py_int r = (if 0 \<le> r then \<lfloor>r\<rfloor> else \<lceil>r\<rceil>)"

text \<open>\<open>a % b\<close> on floats: the result has the sign of the divisor.\<close>

definition py_fmod :: "real \<Rightarrow> real \<Rightarrow> real" where
  "py_fmod a b = a - b * real_of_int \<lfloor>a / b\<rfloor>"

text \<open>\<open>np.radians(deg)\<close>.\<close>

definition np_radians :: "real \<Rightarrow> real" where
  "np_radians deg = deg * pi / 180"

text \<open>A numpy float64 that is the result of a division: finite, infinite or not a number.\<close>

datatype npfloat = Fin real | PInf | NInf | NaN

fun fin_val :: "npfloat \<Rightarrow> real" where
  "fin_val (Fin r) = r"
| "fin_val PInf = 0"
| "fin_val NInf = 0"
| "fin_val NaN = 0"

text \<open>
  Float division in numpy: dividing by zero gives \<open>nan\<close> or an infinity, never an
  exception; otherwise the quotient is rounded.
\<close>

definition np_fdiv :: "fpu \<Rightarrow> real \<Rightarrow> real \<Rightarrow> npfloat" where
  "np_fdiv fp a b =
     (if b = 0 then (if a = 0 then NaN else if 0 < a then PInf else NInf)
      else Fin (fp_div fp a b))"

text \<open>
  \<open>np.array(ws)\<close> of a list of Python numbers: an integer array when the list is not
  empty and holds ints only, a float64 array otherwise (the empty list too).
\<close>

datatype ndarray = IntArray "int list" | FloatArray "real list"

definition np_array :: "pynum list \<Rightarrow> ndarray" where
  "np_array ws =
     (if ws \<noteq> [] \<and> list_all is_pyint ws then IntArray (map py_int_val ws)
      else FloatArray (map py_float ws))"

fun np_sum :: "fpu \<Rightarrow> ndarray \<Rightarrow> pynum" where
  "np_sum fp (IntArray xs) = PyInt (sum_list xs)"
| "np_sum fp (FloatArray xs) = PyFloat (fp_sum fp xs)"

text \<open>
  \<open>a /= s\<close>, the in-place true division of an array: the quotient is float64, and
  numpy refuses to store it into an integer array (a \<open>TypeError\<close>, casting rule
  \<open>same_kind\<close>).
\<close>

fun np_itruediv :: "fpu \<Rightarrow> ndarray \<Rightarrow> pynum \<Rightarrow> error + npfloat list" where
  "np_itruediv fp (IntArray xs) s = Inl TypeError"
| "np_itruediv fp (FloatArray xs) s = Inr (map (\<lambda>x. np_fdiv fp x (py_float s)) xs)"

text \<open>\<open>np.linalg.norm\<close> of a vector of two components.\<close>

definition np_norm2 :: "real \<Rightarrow> real \<Rightarrow> real" where
  "np_norm2 a b = sqrt (a\<^sup>2 + b\<^sup>2)"

text \<open>
  \<open>scipy.stats.norm.pdf(x, loc, scale)\<close>: the standard normal density at
  \<open>(x - loc) / scale\<close>, divided by \<open>scale\<close>.
\<close>

definition norm_pdf :: "real \<Rightarrow> real \<Rightarrow> real \<Rightarrow> real" where
  "norm_pdf x loc scale = exp (- (((x - loc) / scale)\<^sup>2) / 2) / sqrt (2 * pi) / scale"

text \<open>
  \<open>np.random.normal(loc, scale)\<close> is \<open>loc + scale * z\<close> for a standard normal
  variate \<open>z\<close>.
\<close>

definition np_random_normal :: "real \<Rightarrow> real \<Rightarrow> real \<Rightarrow> real" where
  "np_random_normal loc scale z = loc + scale * z"

text \<open>
  \<open>np.random.randint(low, high)\<close>: an integer of the half-open range from \<open>low\<close> to
  \<open>high\<close>, drawn from the discrete uniform distribution: the raw draw \<open>d\<close>, every
  natural number as likely as any other, is reduced modulo the size of the range. The
  draw is an int64: a \<open>ValueError\<close> when \<open>low\<close> is below \<open>- (2 ^ 63)\<close> or \<open>high\<close>
  above \<open>2 ^ 63\<close>, and a \<open>ValueError\<close> when the range is empty.
\<close>

definition np_random_randint :: "int \<Rightarrow> int \<Rightarrow> nat \<Rightarrow> error + int" where
  "np_random_randint low high d =
     (if low < - (2 ^ 63) \<or> 2 ^ 63 < high then Inl ValueError
      else if high \<le> low then Inl ValueError
      else Inr (low + int d mod (high - low)))"

subsection \<open>The occupancy grid\<close>

text \<open>
  The grid is a two-dimensional numpy array of shape \<open>(nrows, ncols)\<close>, indexed
  \<open>grid_map[row, column]\<close>; a cell holding \<open>1\<close> is occupied.
\<close>

record grid =
  nrows :: nat
  ncols :: nat
  cell :: "nat \<Rightarrow> nat \<Rightarrow> real"

text \<open>
  One index along an axis of size \<open>n\<close>: a negative index counts from the end, an index
  out of range raises \<open>IndexError\<close>.
\<close>

definition np_index :: "nat \<Rightarrow> int \<Rightarrow> error + nat" where
  "np_index n i =
     (if 0 \<le> i \<and> i < int n then Inr (nat i)
      else if - int n \<le> i \<and> i < 0 then Inr (nat (i + int n))
      else Inl IndexError)"

definition grid_at :: "grid \<Rightarrow> int \<Rightarrow> int \<Rightarrow> error + real" where
  "grid_at g r c =
     (case np_index (nrows g) r of
        Inl e \<Rightarrow> Inl e
      | Inr r' \<Rightarrow>
          (case np_index (ncols g) c of
             Inl e \<Rightarrow> Inl e
           | Inr c' \<Rightarrow> Inr (cell g r' c')))"

text \<open>
  Modelled from the spec: \<open>inbounds\<close> is imported from the module \<open>utils\<close>, which is
  not among the sources. The spec speaks of a cell that "lies outside the grid's
  bounds"; the cell \<open>(x, y)\<close> is read as \<open>grid_map[y, x]\<close>, so \<open>x\<close> is bounded by the
  number of columns and \<open>y\<close> by the number of rows.
\<close>

definition inbounds :: "grid \<Rightarrow> int \<Rightarrow> int \<Rightarrow> bool" where
  "inbounds g x y = (0 \<le> x \<and> x < int (ncols g) \<and> 0 \<le> y \<and> y < int (nrows g))"

subsection \<open>The line rasteriser\<close>

text \<open>
  The generator \<open>bresenham(x0, y0, x1, y1)\<close> of the package \<open>bresenham\<close>, which is not
  part of the repository: it yields the cells of the line from \<open>(x0, y0)\<close> to
  \<open>(x1, y1)\<close>, both ends included, stepping along the longer axis. The ray caster
  below takes the rasteriser as an argument; this definition is what the notebook
  passes, and it is used here to evaluate the ray caster on concrete inputs.
\<close>

type_synonym rasteriser = "int \<Rightarrow> int \<Rightarrow> int \<Rightarrow> int \<Rightarrow> (int \<times> int) list"

fun bresenham_loop ::
  "int \<times> int \<Rightarrow> int \<times> int \<times> int \<times> int \<Rightarrow> int \<times> int \<Rightarrow> nat \<Rightarrow> int \<Rightarrow> int \<Rightarrow> int
     \<Rightarrow> (int \<times> int) list" where
  "bresenham_loop start dirs deltas 0 x y D = []"
| "bresenham_loop (x0, y0) (xx, xy, yx, yy) (dx, dy) (Suc n) x y D =
     (x0 + x * xx + y * yx, y0 + x * xy + y * yy) #
       (if 0 \<le> D
        then bresenham_loop (x0, y0) (xx, xy, yx, yy) (dx, dy) n (x + 1) (y + 1)
               (D - 2 * dx + 2 * dy)
        else bresenham_loop (x0, y0) (xx, xy, yx, yy) (dx, dy) n (x + 1) y (D + 2 * dy))"

definition bresenham :: rasteriser where
  "bresenham x0 y0 x1 y1 =
     (let dx = x1 - x0;
          dy = y1 - y0;
          xsign = (if 0 < dx then 1 else - 1);
          ysign = (if 0 < dy then 1 else - 1);
          adx = \<bar>dx\<bar>;
          ady = \<bar>dy\<bar>
      in if ady < adx
         then bresenham_loop (x0, y0) (xsign, 0, 0, ysign) (adx, ady) (nat (adx + 1)) 0 0
                (2 * ady - adx)
         else bresenham_loop (x0, y0) (0, ysign, xsign, 0) (ady, adx) (nat (ady + 1)) 0 0
                (2 * adx - ady))"

subsection \<open>The sensor: class \<open>LidarSensor\<close>\<close>

record lidar =
  max_range :: int

text \<open>The constructor stores its argument; it has no branch that raises.\<close>

definition LidarSensor_init :: "int \<Rightarrow> error + lidar" where
  "LidarSensor_init m = Inr \<lparr>max_range = m\<rparr>"

definition random_measure :: "lidar \<Rightarrow> nat \<Rightarrow> error + int" where
  "random_measure s d = np_random_randint 0 (max_range s + 1) d"

definition failure_measure :: "lidar \<Rightarrow> int" where
  "failure_measure s = max_range s"

definition hit_measure :: "real \<Rightarrow> real \<Rightarrow> real" where
  "hit_measure expected_dist z = np_random_normal expected_dist 1 z"

text \<open>
  \<open>measure\<close>: \<open>p\<close> is the value of \<open>np.random.rand()\<close>; \<open>z\<close> and \<open>d\<close> are the draws
  that the hit branch and the random branch consume.
\<close>

definition measure_reading :: "lidar \<Rightarrow> real \<Rightarrow> real \<Rightarrow> real \<Rightarrow> nat \<Rightarrow> error + real" where
  "measure_reading s expected_dist p z d =
     (if p \<le> 0.95 then Inr (hit_measure expected_dist z)
      else if p \<le> 0.98 then
        (case random_measure s d of Inl e \<Rightarrow> Inl e | Inr r \<Rightarrow> Inr (real_of_int r))
      else Inr (real_of_int (failure_measure s)))"

text \<open>\<open>1 / self._max_range\<close> divides Python ints: \<open>ZeroDivisionError\<close> at zero.\<close>

definition lookup_prob :: "lidar \<Rightarrow> real \<Rightarrow> real \<Rightarrow> error + real" where
  "lookup_prob s expected_dist measured_dist =
     (let norm_prob = 0.95 * norm_pdf measured_dist expected_dist 1
      in if max_range s = 0 then Inl ZeroDivisionError
         else
           (let random_prob = 0.03 * (1 / real_of_int (max_range s));
                failure_prob = (if measured_dist = real_of_int (max_range s) then 0.02 else 0)
            in Inr (norm_prob + random_prob + failure_prob)))"

subsection \<open>Ray casting: \<open>get_distance\<close> and \<open>shoot_rays\<close>\<close>

text \<open>
  The loop of \<open>get_distance\<close> over the cells. \<open>dl\<close> is the pair \<open>(dist, loc)\<close> as
  initialised before the loop; the loop returns it at a cell out of bounds and when the
  cells are exhausted, and leaves with the hit cell's distance and location at the
  first occupied cell.
\<close>

type_synonym ray_result = "real \<times> (real \<times> real)"

fun walk_cells :: "grid \<Rightarrow> real \<Rightarrow> real \<Rightarrow> ray_result \<Rightarrow> (int \<times> int) list \<Rightarrow> error + ray_result" where
  "walk_cells g x y dl [] = Inr dl"
| "walk_cells g x y dl (c # cs) =
     (if \<not> inbounds g (fst c) (snd c) then Inr dl
      else
        (case grid_at g (snd c) (fst c) of
           Inl e \<Rightarrow> Inl e
         | Inr v \<Rightarrow>
             if v = 1
             then Inr (np_norm2 (x - real_of_int (fst c)) (y - real_of_int (snd c)),
                       (real_of_int (fst c), real_of_int (snd c)))
             else walk_cells g x y dl cs))"

text \<open>
  \<open>get_distance\<close> computes the end point \<open>(x2, y2)\<close> of the ray first; the product
  \<open>max_range * np.cos(angle)\<close> converts \<open>max_range\<close> to a float.
\<close>

definition get_distance ::
  "fpu \<Rightarrow> rasteriser \<Rightarrow> grid \<Rightarrow> lidar \<Rightarrow> real \<Rightarrow> real \<Rightarrow> real \<Rightarrow> error + ray_result" where
  "get_distance fp line g s x y angle =
     (case py_float_of_int (max_range s) of
        Inl e \<Rightarrow> Inl e
      | Inr m \<Rightarrow>
          (let x2 = x + m * fp_cos fp angle;
               y2 = y + m * fp_sin fp angle;
               cells = line (py_int x) (py_int y) (py_int x2) (py_int y2)
           in walk_cells g x y (real_of_int (max_range s), (x2, y2)) cells))"

type_synonym pose = "real \<times> real \<times> real"

definition ray_angle :: "real \<Rightarrow> nat \<Rightarrow> nat \<Rightarrow> real" where
  "ray_angle theta k i = py_fmod (theta + np_radians (real i * (360 / real k))) (2 * pi)"

fun shoot_loop ::
  "fpu \<Rightarrow> rasteriser \<Rightarrow> grid \<Rightarrow> lidar \<Rightarrow> pose \<Rightarrow> nat \<Rightarrow> nat list \<Rightarrow> error + real list" where
  "shoot_loop fp line g s st k [] = Inr []"
| "shoot_loop fp line g s (x, y, theta) k (i # is) =
     (case get_distance fp line g s x y (ray_angle theta k i) of
        Inl e \<Rightarrow> Inl e
      | Inr (expected_dist, loc) \<Rightarrow>
          (case shoot_loop fp line g s (x, y, theta) k is of
             Inl e \<Rightarrow> Inl e
           | Inr ds \<Rightarrow> Inr (expected_dist # ds)))"

definition shoot_rays ::
  "fpu \<Rightarrow> rasteriser \<Rightarrow> grid \<Rightarrow> lidar \<Rightarrow> pose \<Rightarrow> nat \<Rightarrow> error + real list" where
  "shoot_rays fp line g s st k = shoot_loop fp line g s st k [0..<k]"

subsection \<open>Weights: \<open>importance\<close> and \<open>sensor_fusion\<close>\<close>

fun importance_loop :: "fpu \<Rightarrow> lidar \<Rightarrow> pynum \<Rightarrow> (real \<times> real) list \<Rightarrow> error + pynum" where
  "importance_loop fp s weight [] = Inr weight"
| "importance_loop fp s weight ((ed, md) # ps) =
     (case lookup_prob s ed md of
        Inl e \<Rightarrow> Inl e
      | Inr p \<Rightarrow> importance_loop fp s (py_imul fp weight p) ps)"

definition importance ::
  "fpu \<Rightarrow> rasteriser \<Rightarrow> grid \<Rightarrow> lidar \<Rightarrow> pose \<Rightarrow> real list \<Rightarrow> error + pynum" where
  "importance fp line g s st measured_distances =
     (case shoot_rays fp line g s st (length measured_distances) of
        Inl e \<Rightarrow> Inl e
      | Inr expected_distances \<Rightarrow>
          importance_loop fp s (PyInt 1) (zip expected_distances measured_distances))"

fun collect_weights ::
  "fpu \<Rightarrow> rasteriser \<Rightarrow> grid \<Rightarrow> lidar \<Rightarrow> pose list \<Rightarrow> real list \<Rightarrow> error + pynum list" where
  "collect_weights fp line g s [] mds = Inr []"
| "collect_weights fp line g s (st # sts) mds =
     (case importance fp line g s st mds of
        Inl e \<Rightarrow> Inl e
      | Inr weight \<Rightarrow>
          (case collect_weights fp line g s sts mds of
             Inl e \<Rightarrow> Inl e
           | Inr weights \<Rightarrow> Inr (weight # weights)))"

definition sensor_fusion ::
  "fpu \<Rightarrow> rasteriser \<Rightarrow> grid \<Rightarrow> lidar \<Rightarrow> pose list \<Rightarrow> real list \<Rightarrow> error + npfloat list" where
  "sensor_fusion fp line g s samples measured_distances =
     (case collect_weights fp line g s samples measured_distances of
        Inl e \<Rightarrow> Inl e
      | Inr ws \<Rightarrow>
          (let weights = np_array ws in np_itruediv fp weights (np_sum fp weights)))"

subsection \<open>The spec's notions\<close>

text \<open>
  The density of the Gaussian with mean \<open>mu\<close> and standard deviation \<open>sigma\<close>, as the
  specification names it.
\<close>

definition gaussian_density :: "real \<Rightarrow> real \<Rightarrow> real \<Rightarrow> real" where
  "gaussian_density mu sigma x =
     1 / (sigma * sqrt (2 * pi)) * exp (- ((x - mu)\<^sup>2) / (2 * sigma\<^sup>2))"

text \<open>
  The likelihood of one reading as the specification writes it: the mixture of the
  Gaussian, the uniform term and the point mass at \<open>max_range\<close>.
\<close>

definition likelihood :: "lidar \<Rightarrow> real \<Rightarrow> real \<Rightarrow> real" where
  "likelihood s expected_dist measured_dist =
     0.95 * gaussian_density expected_dist 1 measured_dist
       + 0.03 * (1 / real_of_int (max_range s))
       + (if measured_dist = real_of_int (max_range s) then 0.02 else 0)"

text \<open>
  The end point of the ray that \<open>get_distance\<close> computes, and the cells that the
  rasteriser enumerates for it.
\<close>

definition ray_end :: "fpu \<Rightarrow> lidar \<Rightarrow> real \<Rightarrow> real \<Rightarrow> real \<Rightarrow> real \<times> real" where
  "ray_end fp s x y angle =
     (x + real_of_int (max_range s) * fp_cos fp angle,
      y + real_of_int (max_range s) * fp_sin fp angle)"

definition ray_cells ::
  "fpu \<Rightarrow> rasteriser \<Rightarrow> lidar \<Rightarrow> real \<Rightarrow> real \<Rightarrow> real \<Rightarrow> (int \<times> int) list" where
  "ray_cells fp line s x y angle =
     line (py_int x) (py_int y) (py_int (fst (ray_end fp s x y angle)))
       (py_int (snd (ray_end fp s x y angle)))"

text \<open>A cell is occupied when the grid holds \<open>1\<close> there.\<close>

definition occupied :: "grid \<Rightarrow> int \<times> int \<Rightarrow> bool" where
  "occupied g c = (grid_at g (snd c) (fst c) = Inr 1)"

definition cell_inbounds :: "grid \<Rightarrow> int \<times> int \<Rightarrow> bool" where
  "cell_inbounds g c = inbounds g (fst c) (snd c)"

text \<open>
  The cells that the walk of \<open>get_distance\<close> looks at before it leaves the grid: the
  longest prefix of the enumeration that is in bounds.
\<close>

definition walked :: "grid \<Rightarrow> (int \<times> int) list \<Rightarrow> (int \<times> int) list" where
  "walked g cs = takeWhile (cell_inbounds g) cs"

text \<open>
  The branch of \<open>measure\<close> that a uniform draw \<open>p\<close> selects, by the comparisons of
  \<open>measure\<close> in their order.
\<close>

datatype branch = Hit | Random | Failure

definition measure_branch :: "real \<Rightarrow> branch" where
  "measure_branch p = (if p \<le> 0.95 then Hit else if p \<le> 0.98 then Random else Failure)"

text \<open>
  The centre of a cell: \<open>int()\<close> puts the points \<open>(x, y)\<close> with \<open>c0 \<le> x < c0 + 1\<close> and
  \<open>c1 \<le> y < c1 + 1\<close> into the cell \<open>(c0, c1)\<close> (for coordinates that are not
  negative), a unit square whose centre is \<open>(c0 + 1 / 2, c1 + 1 / 2)\<close>.
\<close>

definition cell_centre :: "int \<times> int \<Rightarrow> real \<times> real" where
  "cell_centre c = (real_of_int (fst c) + 1 / 2, real_of_int (snd c) + 1 / 2)"


text \<open>
  Float arithmetic without rounding, and the same with a product that underflows: a
  product of magnitude at most \<open>2 ^ -1075\<close>, half the least positive float64, rounds to
  zero.
\<close>

definition exact_fpu :: fpu where
  "exact_fpu =
     \<lparr>fp_cos = cos, fp_sin = sin, fp_mul = (\<lambda>a b. a * b), fp_div = (\<lambda>a b. a / b),
      fp_sum = sum_list\<rparr>"

definition underflow_fpu :: fpu where
  "underflow_fpu =
     \<lparr>fp_cos = cos, fp_sin = sin,
      fp_mul = (\<lambda>a b. if \<bar>a * b\<bar> \<le> 1 / 2 ^ 1075 then 0 else a * b),
      fp_div = (\<lambda>a b. a / b), fp_sum = sum_list\<rparr>"

text \<open>
  The standard model of rounding, for the operations that normalise \<open>n\<close> weights
  between \<open>0\<close> and \<open>1\<close>: a product of two such numbers is again one; a quotient
  \<open>a / b\<close> with \<open>a\<close> at most \<open>2 * b\<close> is not negative and has relative error at most
  \<open>u\<close> or, when it underflows, absolute error at most \<open>eta\<close>; the sum of \<open>n\<close> such
  numbers has relative error at most \<open>eps\<close>. Float64 arithmetic satisfies it with
  \<open>u = 2 ^ -53\<close>, \<open>eta = 2 ^ -1075\<close> and \<open>eps = (n - 1) * u / (1 - (n - 1) * u)\<close>.
\<close>

definition rounding_model :: "real \<Rightarrow> real \<Rightarrow> real \<Rightarrow> nat \<Rightarrow> fpu \<Rightarrow> bool" where
  "rounding_model u eps eta n fp =
     (0 \<le> u \<and> 0 \<le> eps \<and> eps \<le> 1 / 2 \<and> 0 \<le> eta
      \<and> (\<forall>a b. 0 \<le> a \<and> a \<le> 1 \<and> 0 \<le> b \<and> b \<le> 1 \<longrightarrow>
            0 \<le> fp_mul fp a b \<and> fp_mul fp a b \<le> 1)
      \<and> (\<forall>a b. 0 \<le> a \<and> 0 < b \<and> a \<le> 2 * b \<longrightarrow>
            0 \<le> fp_div fp a b \<and> \<bar>fp_div fp a b - a / b\<bar> \<le> u * (a / b) + eta)
      \<and> (\<forall>xs. length xs = n \<and> (\<forall>x \<in> set xs. 0 \<le> x \<and> x \<le> 1) \<longrightarrow>
            \<bar>fp_sum fp xs - sum_list xs\<bar> \<le> eps * sum_list xs))"

section \<open>Properties\<close>

subsection \<open>The walk over the cells\<close>

lemma grid_at_inbounds:
  "inbounds g x y \<Longrightarrow> grid_at g y x = Inr (cell g (nat y) (nat x))"
  by (simp add: inbounds_def grid_at_def np_index_def)

lemma occupied_inbounds:
  "cell_inbounds g c \<Longrightarrow> occupied g c = (cell g (nat (snd c)) (nat (fst c)) = 1)"
  by (simp add: occupied_def cell_inbounds_def grid_at_inbounds)

lemma walk_cells_step:
  "walk_cells g x y dl (c # cs) =
     (if \<not> cell_inbounds g c then Inr dl
      else if occupied g c
        then Inr (np_norm2 (x - real_of_int (fst c)) (y - real_of_int (snd c)),
                  (real_of_int (fst c), real_of_int (snd c)))
        else walk_cells g x y dl cs)"
  by (simp add: cell_inbounds_def occupied_def grid_at_inbounds)

lemma walk_cells_total: "\<exists>r. walk_cells g x y dl cs = Inr r"
proof (induction cs)
  case Nil
  show ?case by (simp only: walk_cells.simps(1)) blast
next
  case (Cons c cs)
  then obtain r where r: "walk_cells g x y dl cs = Inr r" by blast
  show ?case
  proof (cases "cell_inbounds g c")
    case False
    then show ?thesis by (simp only: walk_cells_step if_True if_False not_False_eq_True) blast
  next
    case inb: True
    show ?thesis
    proof (cases "occupied g c")
      case True
      with inb show ?thesis by (simp only: walk_cells_step if_True if_False not_True_eq_False) blast
    next
      case False
      with inb r show ?thesis by (simp only: walk_cells_step if_True if_False not_True_eq_False) blast
    qed
  qed
qed

lemma walk_cells_free:
  "\<forall>c \<in> set (walked g cs). \<not> occupied g c \<Longrightarrow> walk_cells g x y dl cs = Inr dl"
proof (induction cs)
  case Nil
  show ?case by simp
next
  case (Cons c cs)
  show ?case
  proof (cases "cell_inbounds g c")
    case False
    then show ?thesis by (simp only: walk_cells_step) simp
  next
    case True
    with Cons.prems have free: "\<not> occupied g c" and rest: "\<forall>c \<in> set (walked g cs). \<not> occupied g c"
      by (simp_all add: walked_def)
    from Cons.IH [OF rest] True free show ?thesis
      by (simp only: walk_cells_step) simp
  qed
qed

lemma walk_cells_append:
  "\<forall>p \<in> set pre. cell_inbounds g p \<and> \<not> occupied g p \<Longrightarrow>
     walk_cells g x y dl (pre @ cs) = walk_cells g x y dl cs"
proof (induction pre)
  case Nil
  show ?case by simp
next
  case (Cons p pre)
  then show ?case
    by (simp only: append_Cons walk_cells_step) simp
qed


lemma get_distance_walk:
  "float_range (max_range s) \<Longrightarrow>
     get_distance fp line g s x y angle =
       walk_cells g x y (real_of_int (max_range s), ray_end fp s x y angle)
         (ray_cells fp line s x y angle)"
  by (simp add: get_distance_def py_float_of_int_def ray_end_def ray_cells_def Let_def)

lemma get_distance_overflow:
  "\<not> float_range (max_range s) \<Longrightarrow> get_distance fp line g s x y angle = Inl OverflowError"
  by (simp add: get_distance_def py_float_of_int_def)

lemma get_distance_free:
  assumes "float_range (max_range s)"
    and "\<forall>c \<in> set (walked g (ray_cells fp line s x y angle)). \<not> occupied g c"
  shows "get_distance fp line g s x y angle
    = Inr (real_of_int (max_range s), ray_end fp s x y angle)"
  using assms by (simp add: get_distance_walk walk_cells_free)

lemma walked_prefix:
  assumes "\<forall>p \<in> set pre. cell_inbounds g p" and "\<not> cell_inbounds g c"
  shows "walked g (pre @ c # post) = pre"
  unfolding walked_def using assms by (simp add: takeWhile_append2)

lemma set_walked: "set (walked g cs) \<subseteq> set cs"
  unfolding walked_def by (auto dest: set_takeWhileD)

lemma walked_inbounds: "c \<in> set (walked g cs) \<Longrightarrow> cell_inbounds g c"
  unfolding walked_def by (auto dest: set_takeWhileD)

lemma empty_grid_free:
  assumes "\<forall>r c. cell g r c \<noteq> 1" and "cell_inbounds g p"
  shows "\<not> occupied g p"
  using assms by (simp add: occupied_inbounds)

text \<open>
  Claim C6. Whenever the walk of \<open>get_distance\<close> meets no occupied cell, the distance
  it returns is exactly \<open>max_range\<close>: when a cell of the enumeration lies outside the
  grid and every cell before it is in bounds and free (the walk stops there), when
  every cell of the enumeration is in bounds and free (the enumeration completes), and
  in particular on a grid without occupied cells, from every pose and at every angle.
  This holds for every rasteriser \<open>line\<close> and whatever \<open>np.cos\<close> and \<open>np.sin\<close>
  return. (The one case apart is a \<open>max_range\<close> that does not convert to a float, of
  magnitude \<open>2 ^ 1024 - 2 ^ 970\<close> or more: there the product
  \<open>max_range * np.cos(angle)\<close> raises \<open>OverflowError\<close> before any cell is
  enumerated.)
\<close>

theorem get_distance_no_obstacle:
  "((\<exists>pre c post. ray_cells fp line s x y angle = pre @ c # post
        \<and> (\<forall>p \<in> set pre. cell_inbounds g p \<and> \<not> occupied g p) \<and> \<not> cell_inbounds g c)
      \<longrightarrow> (\<exists>loc. get_distance fp line g s x y angle =
            (if float_range (max_range s) then Inr (real_of_int (max_range s), loc)
             else Inl OverflowError)))
   \<and> ((\<forall>p \<in> set (ray_cells fp line s x y angle). cell_inbounds g p \<and> \<not> occupied g p)
      \<longrightarrow> (\<exists>loc. get_distance fp line g s x y angle =
            (if float_range (max_range s) then Inr (real_of_int (max_range s), loc)
             else Inl OverflowError)))
   \<and> ((\<forall>r c. cell g r c \<noteq> 1)
      \<longrightarrow> (\<exists>loc. get_distance fp line g s x y angle =
            (if float_range (max_range s) then Inr (real_of_int (max_range s), loc)
             else Inl OverflowError)))"
proof -
  have free: "\<exists>loc. get_distance fp line g s x y angle =
            (if float_range (max_range s) then Inr (real_of_int (max_range s), loc)
             else Inl OverflowError)"
    if "\<forall>c \<in> set (walked g (ray_cells fp line s x y angle)). \<not> occupied g c"
  proof (cases "float_range (max_range s)")
    case True
    with that show ?thesis
      by (simp add: get_distance_free)
  next
    case False
    then show ?thesis
      by (simp add: get_distance_overflow)
  qed
  show ?thesis
  proof (intro conjI impI)
    assume "\<exists>pre c post. ray_cells fp line s x y angle = pre @ c # post
        \<and> (\<forall>p \<in> set pre. cell_inbounds g p \<and> \<not> occupied g p) \<and> \<not> cell_inbounds g c"
    then obtain pre c post where cells: "ray_cells fp line s x y angle = pre @ c # post"
      and pre: "\<forall>p \<in> set pre. cell_inbounds g p \<and> \<not> occupied g p"
      and out: "\<not> cell_inbounds g c"
      by blast
    from pre out have "walked g (pre @ c # post) = pre"
      by (simp add: walked_prefix)
    with pre cells have "\<forall>c \<in> set (walked g (ray_cells fp line s x y angle)). \<not> occupied g c"
      by simp
    then show "\<exists>loc. get_distance fp line g s x y angle =
            (if float_range (max_range s) then Inr (real_of_int (max_range s), loc)
             else Inl OverflowError)"
      by (rule free)
  next
    assume "\<forall>p \<in> set (ray_cells fp line s x y angle). cell_inbounds g p \<and> \<not> occupied g p"
    then have "\<forall>c \<in> set (walked g (ray_cells fp line s x y angle)). \<not> occupied g c"
      using set_walked by blast
    then show "\<exists>loc. get_distance fp line g s x y angle =
            (if float_range (max_range s) then Inr (real_of_int (max_range s), loc)
             else Inl OverflowError)"
      by (rule free)
  next
    assume "\<forall>r c. cell g r c \<noteq> 1"
    then have "\<forall>c \<in> set (walked g (ray_cells fp line s x y angle)). \<not> occupied g c"
      using empty_grid_free walked_inbounds by blast
    then show "\<exists>loc. get_distance fp line g s x y angle =
            (if float_range (max_range s) then Inr (real_of_int (max_range s), loc)
             else Inl OverflowError)"
      by (rule free)
  qed
qed

text \<open>
  Claim C7, amended. At the first occupied cell of the enumeration (every earlier cell
  in bounds and free) \<open>get_distance\<close> stops and returns the Euclidean distance from the
  pose's own coordinates \<open>(x, y)\<close>, not the truncated ones, to the cell's integer
  coordinates \<open>(c0, c1)\<close>, which are a corner of the cell and not its centre, with
  those coordinates as the location. When no obstruction is found the location is the
  unclipped end point \<open>(x + max_range * cos angle, y + max_range * sin angle)\<close>, with
  the values \<open>np.cos\<close> and \<open>np.sin\<close> return.
\<close>

theorem get_distance_first_hit:
  "float_range (max_range s) \<Longrightarrow>
   (ray_cells fp line s x y angle = pre @ c # post
       \<and> (\<forall>p \<in> set pre. cell_inbounds g p \<and> \<not> occupied g p)
       \<and> cell_inbounds g c \<and> occupied g c
     \<longrightarrow> get_distance fp line g s x y angle =
           Inr (sqrt ((x - real_of_int (fst c))\<^sup>2 + (y - real_of_int (snd c))\<^sup>2),
                (real_of_int (fst c), real_of_int (snd c))))
   \<and> ((\<forall>p \<in> set (walked g (ray_cells fp line s x y angle)). \<not> occupied g p)
     \<longrightarrow> (\<exists>dst. get_distance fp line g s x y angle =
           Inr (dst, (x + real_of_int (max_range s) * fp_cos fp angle,
                      y + real_of_int (max_range s) * fp_sin fp angle))))"
proof (intro conjI impI)
  assume m: "float_range (max_range s)"
  {
    assume h: "ray_cells fp line s x y angle = pre @ c # post
       \<and> (\<forall>p \<in> set pre. cell_inbounds g p \<and> \<not> occupied g p)
       \<and> cell_inbounds g c \<and> occupied g c"
    then have pre: "\<forall>p \<in> set pre. cell_inbounds g p \<and> \<not> occupied g p"
      and c: "cell_inbounds g c" "occupied g c"
      by simp_all
    have "get_distance fp line g s x y angle =
      walk_cells g x y (real_of_int (max_range s), ray_end fp s x y angle) (c # post)"
      using h m walk_cells_append [OF pre] by (simp add: get_distance_walk)
    also have "\<dots> = Inr (np_norm2 (x - real_of_int (fst c)) (y - real_of_int (snd c)),
                  (real_of_int (fst c), real_of_int (snd c)))"
      using c by (simp only: walk_cells_step) simp
    finally show "get_distance fp line g s x y angle =
           Inr (sqrt ((x - real_of_int (fst c))\<^sup>2 + (y - real_of_int (snd c))\<^sup>2),
                (real_of_int (fst c), real_of_int (snd c)))"
      by (simp add: np_norm2_def)
  }
  {
    assume "\<forall>p \<in> set (walked g (ray_cells fp line s x y angle)). \<not> occupied g p"
    with m show "\<exists>dst. get_distance fp line g s x y angle =
           Inr (dst, (x + real_of_int (max_range s) * fp_cos fp angle,
                      y + real_of_int (max_range s) * fp_sin fp angle))"
      by (simp add: get_distance_free ray_end_def)
  }
qed

subsection \<open>Concrete rays\<close>

lemma float_range_small: "\<bar>i\<bar> \<le> 2 ^ 63 \<Longrightarrow> float_range i"
proof -
  assume i: "\<bar>i\<bar> \<le> 2 ^ 63"
  have "(2::int) ^ 63 < 2 ^ 1024 - 2 ^ 970"
    by simp
  with i show ?thesis
    unfolding float_range_def by linarith
qed

lemma bres_1_1_6_1: "bresenham 1 1 6 1 = [(1, 1), (2, 1), (3, 1), (4, 1), (5, 1), (6, 1)]"
  by code_simp

lemma bres_0_0_10_0:
  "bresenham 0 0 10 0 =
     [(0, 0), (1, 0), (2, 0), (3, 0), (4, 0), (5, 0), (6, 0), (7, 0), (8, 0), (9, 0), (10, 0)]"
  by code_simp



lemma ray_cells_east:
  "ray_cells exact_fpu bresenham \<lparr>max_range = 5\<rparr> 1 1 0
     = [(1, 1), (2, 1)] @ (3, 1) # [(4, 1), (5, 1), (6, 1)]"
  by (simp add: ray_cells_def ray_end_def exact_fpu_def py_int_def bres_1_1_6_1)

theorem get_distance_no_obstacle_witness:
  "ray_cells exact_fpu bresenham \<lparr>max_range = 5\<rparr> 1 1 0
      = [(1, 1), (2, 1)] @ (3, 1) # [(4, 1), (5, 1), (6, 1)]
   \<and> \<not> cell_inbounds \<lparr>nrows = 3, ncols = 3, cell = \<lambda>r c. 0\<rparr> (3, 1)
   \<and> (\<exists>loc. get_distance exact_fpu bresenham \<lparr>nrows = 3, ncols = 3, cell = \<lambda>r c. 0\<rparr>
          \<lparr>max_range = 5\<rparr> 1 1 0 = Inr (5, loc))
   \<and> (\<exists>loc. get_distance exact_fpu bresenham \<lparr>nrows = 3, ncols = 8, cell = \<lambda>r c. 0\<rparr>
          \<lparr>max_range = 5\<rparr> 1 1 0 = Inr (5, loc))"
proof -
  let ?s = "\<lparr>max_range = 5\<rparr>"
  let ?g = "\<lparr>nrows = 3, ncols = 3, cell = \<lambda>r c. 0\<rparr>"
  let ?h = "\<lparr>nrows = 3, ncols = 8, cell = \<lambda>r c. 0\<rparr>"
  have m: "float_range (max_range ?s)"
    by (rule float_range_small) simp
  have out: "\<not> cell_inbounds ?g (3, 1)"
    by (simp add: cell_inbounds_def inbounds_def)
  have pre: "\<forall>p \<in> set [(1, 1), (2, 1)]. cell_inbounds ?g p \<and> \<not> occupied ?g p"
    by (simp add: cell_inbounds_def inbounds_def occupied_def grid_at_def np_index_def)
  have all: "\<forall>p \<in> set (ray_cells exact_fpu bresenham ?s 1 1 0).
      cell_inbounds ?h p \<and> \<not> occupied ?h p"
    by (simp add: ray_cells_east cell_inbounds_def inbounds_def occupied_def grid_at_def
        np_index_def)
  have empty: "\<forall>r c. cell ?h r c \<noteq> 1"
    by simp
  from get_distance_no_obstacle [of exact_fpu bresenham ?s 1 1 0 ?g] ray_cells_east pre out m
  have a: "\<exists>loc. get_distance exact_fpu bresenham ?g ?s 1 1 0 = Inr (5, loc)"
    by (simp del: append.simps)
  from get_distance_no_obstacle [of exact_fpu bresenham ?s 1 1 0 ?h] all empty m
  have b: "\<exists>loc. get_distance exact_fpu bresenham ?h ?s 1 1 0 = Inr (5, loc)"
    by simp
  from ray_cells_east out a b show ?thesis
    by blast
qed

lemma ray_cells_half:
  "ray_cells exact_fpu bresenham \<lparr>max_range = 10\<rparr> (1 / 2) 0 0 =
     [(0, 0), (1, 0), (2, 0)] @ (3, 0) # [(4, 0), (5, 0), (6, 0), (7, 0), (8, 0), (9, 0), (10, 0)]"
proof -
  have "\<lfloor>21 / 2 :: real\<rfloor> = 10" by linarith
  then show ?thesis
    by (simp add: ray_cells_def ray_end_def exact_fpu_def py_int_def bres_0_0_10_0)
qed

theorem get_distance_first_hit_witness:
  "get_distance exact_fpu bresenham
      \<lparr>nrows = 1, ncols = 5, cell = \<lambda>r c. if c = 3 then 1 else 0\<rparr>
      \<lparr>max_range = 10\<rparr> (1 / 2) 0 0 = Inr (5 / 2, (3, 0))
   \<and> (\<exists>dst. get_distance exact_fpu bresenham \<lparr>nrows = 1, ncols = 5, cell = \<lambda>r c. 0\<rparr>
      \<lparr>max_range = 10\<rparr> (1 / 2) 0 0 = Inr (dst, (21 / 2, 0)))"
proof -
  let ?s = "\<lparr>max_range = 10\<rparr>"
  let ?g = "\<lparr>nrows = 1, ncols = 5, cell = \<lambda>r c. if c = 3 then (1::real) else 0\<rparr>"
  let ?h = "\<lparr>nrows = 1, ncols = 5, cell = \<lambda>r c. (0::real)\<rparr>"
  have m: "float_range (max_range ?s)"
    by (rule float_range_small) simp
  have pre: "\<forall>p \<in> set [(0, 0), (1, 0), (2, 0)]. cell_inbounds ?g p \<and> \<not> occupied ?g p"
    by (simp add: cell_inbounds_def inbounds_def occupied_def grid_at_def np_index_def)
  have hit: "cell_inbounds ?g (3, 0) \<and> occupied ?g (3, 0)"
    by (simp add: cell_inbounds_def inbounds_def occupied_def grid_at_def np_index_def)
  have root: "sqrt ((1 / 2 - 3)\<^sup>2 + 0\<^sup>2) = 5 / 2"
    by (simp add: real_sqrt_abs)
  from get_distance_first_hit [OF m, of exact_fpu bresenham "1 / 2" 0 0
      "[(0, 0), (1, 0), (2, 0)]" "(3, 0)"
      "[(4, 0), (5, 0), (6, 0), (7, 0), (8, 0), (9, 0), (10, 0)]" ?g] ray_cells_half pre hit
  have a: "get_distance exact_fpu bresenham ?g ?s (1 / 2) 0 0
      = Inr (sqrt ((1 / 2 - 3)\<^sup>2 + 0\<^sup>2), (3, 0))"
    by (simp del: append.simps)
  have free: "\<forall>p \<in> set (walked ?h (ray_cells exact_fpu bresenham ?s (1 / 2) 0 0)).
      \<not> occupied ?h p"
    by (simp add: ray_cells_half walked_def cell_inbounds_def inbounds_def occupied_def
        grid_at_def np_index_def)
  from get_distance_first_hit [OF m, of exact_fpu bresenham "1 / 2" 0 0 "[]" "(0, 0)" "[]" ?h] free
  have b: "\<exists>dst. get_distance exact_fpu bresenham ?h ?s (1 / 2) 0 0 = Inr (dst, (21 / 2, 0))"
    by (simp add: exact_fpu_def)
  from a b root show ?thesis
    by simp
qed

text \<open>
  Claim C7 as stated, that the distance is measured to the centre of the hit cell,
  fails: the pose \<open>(1 / 2, 1 / 2)\<close> is the centre of the cell \<open>(0, 0)\<close>, and with that
  cell occupied \<open>get_distance\<close> returns the distance \<open>sqrt (1 / 2)\<close>, to the corner
  \<open>(0, 0)\<close>, where the distance to the centre is \<open>0\<close>.
\<close>

theorem get_distance_not_to_centre:
  "get_distance exact_fpu bresenham
      \<lparr>nrows = 3, ncols = 3, cell = \<lambda>r c. if r = 0 \<and> c = 0 then 1 else 0\<rparr>
      \<lparr>max_range = 5\<rparr> (1 / 2) (1 / 2) 0 = Inr (sqrt (1 / 2), (0, 0))
   \<and> cell_centre (0, 0) = (1 / 2, 1 / 2)
   \<and> np_norm2 (1 / 2 - fst (cell_centre (0, 0))) (1 / 2 - snd (cell_centre (0, 0))) = 0
   \<and> sqrt (1 / 2) \<noteq> 0"
proof -
  let ?s = "\<lparr>max_range = 5\<rparr>"
  have m: "float_range (max_range ?s)"
    by (rule float_range_small) simp
  have "bresenham 0 0 5 0 = [(0, 0), (1, 0), (2, 0), (3, 0), (4, 0), (5, 0)]"
    by code_simp
  moreover have "\<lfloor>11 / 2 :: real\<rfloor> = 5" by linarith
  ultimately have cells: "ray_cells exact_fpu bresenham ?s (1 / 2) (1 / 2) 0
      = [(0, 0), (1, 0), (2, 0), (3, 0), (4, 0), (5, 0)]"
    by (simp add: ray_cells_def ray_end_def exact_fpu_def py_int_def)
  have "get_distance exact_fpu bresenham
      \<lparr>nrows = 3, ncols = 3, cell = \<lambda>r c. if r = 0 \<and> c = 0 then 1 else 0\<rparr>
      ?s (1 / 2) (1 / 2) 0 = Inr (sqrt (1 / 2), (0, 0))"
    using m by (simp add: get_distance_walk cells inbounds_def grid_at_def np_index_def
        np_norm2_def power2_eq_square)
  then show ?thesis
    by (simp add: cell_centre_def np_norm2_def)
qed

subsection \<open>The sensor\<close>

lemma norm_pdf_gaussian: "norm_pdf x loc 1 = gaussian_density loc 1 x"
  by (simp add: norm_pdf_def gaussian_density_def divide_simps)

lemma lookup_prob_likelihood:
  "max_range s \<noteq> 0 \<Longrightarrow> lookup_prob s e m = Inr (likelihood s e m)"
  by (simp add: lookup_prob_def likelihood_def norm_pdf_gaussian Let_def)

lemma gaussian_density_pos: "0 < gaussian_density mu 1 x"
  by (simp add: gaussian_density_def)

lemma likelihood_pos: "0 < max_range s \<Longrightarrow> 0 < likelihood s e m"
proof -
  assume m: "0 < max_range s"
  have g: "0 < 0.95 * gaussian_density e 1 m"
    using gaussian_density_pos [of e m] by simp
  have u: "0 < 0.03 * (1 / real_of_int (max_range s))"
    using m by simp
  have f: "0 \<le> (if m = real_of_int (max_range s) then 0.02 else (0::real))"
    by simp
  from g u f show ?thesis
    unfolding likelihood_def by linarith
qed

text \<open>
  Claim C3. For a sensor whose \<open>max_range\<close> is not zero, and for every expected and
  measured distance, \<open>lookup_prob\<close> returns \<open>0.95\<close> times the density at the measured
  distance of the Gaussian with mean the expected distance and standard deviation \<open>1\<close>,
  plus \<open>0.03 * (1 / max_range)\<close>, plus \<open>0.02\<close> when the measured distance equals
  \<open>max_range\<close> and \<open>0\<close> otherwise.
\<close>

theorem lookup_prob_mixture:
  "max_range s \<noteq> 0 \<Longrightarrow>
     lookup_prob s expected_dist measured_dist =
       Inr (0.95 * gaussian_density expected_dist 1 measured_dist
            + 0.03 * (1 / real_of_int (max_range s))
            + (if measured_dist = real_of_int (max_range s) then 0.02 else 0))"
  by (simp add: lookup_prob_def norm_pdf_gaussian Let_def)

theorem lookup_prob_mixture_witness:
  "lookup_prob \<lparr>max_range = 100\<rparr> 70 100 =
     Inr (0.95 * gaussian_density 70 1 100 + 0.03 * (1 / 100) + 0.02)
   \<and> lookup_prob \<lparr>max_range = 100\<rparr> 70 71 =
     Inr (0.95 * gaussian_density 70 1 71 + 0.03 * (1 / 100) + 0)"
  using lookup_prob_mixture [of "\<lparr>max_range = 100\<rparr>" 70 100]
    lookup_prob_mixture [of "\<lparr>max_range = 100\<rparr>" 70 71]
  by simp

text \<open>
  Claim C4. \<open>measure\<close> chooses its branch by comparing the one uniform draw \<open>p\<close> with
  \<open>0.95\<close> and then with \<open>0.98\<close>. At or below \<open>0.95\<close> it returns the expected
  distance plus the standard normal variate \<open>z\<close> of the generator, not scaled: a
  reading \<open>r\<close> has the density the standard normal has at \<open>r - expected_dist\<close>, which
  is the density of the Gaussian with mean the expected distance and standard
  deviation \<open>1\<close>. Above \<open>0.95\<close> and at or below \<open>0.98\<close> it returns what the random
  branch returns; otherwise it returns \<open>max_range\<close>.
\<close>

theorem measure_branches:
  "(p \<le> 0.95 \<longrightarrow>
        measure_reading s expected_dist p z d = Inr (expected_dist + z)
        \<and> gaussian_density 0 1 z = gaussian_density expected_dist 1 (expected_dist + z))
   \<and> (0.95 < p \<and> p \<le> 0.98 \<longrightarrow>
        measure_reading s expected_dist p z d =
          (case random_measure s d of Inl e \<Rightarrow> Inl e | Inr r \<Rightarrow> Inr (real_of_int r)))
   \<and> (0.98 < p \<longrightarrow> measure_reading s expected_dist p z d = Inr (real_of_int (max_range s)))"
  by (simp add: measure_reading_def hit_measure_def np_random_normal_def failure_measure_def
      gaussian_density_def)

theorem measure_branches_witness:
  "measure_reading \<lparr>max_range = 100\<rparr> 70 0.95 (1 / 4) 7 = Inr (281 / 4)
   \<and> gaussian_density 0 1 (1 / 4) = gaussian_density 70 1 (281 / 4)
   \<and> measure_reading \<lparr>max_range = 100\<rparr> 70 0.98 (1 / 4) 7 =
        (case random_measure \<lparr>max_range = 100\<rparr> 7 of Inl e \<Rightarrow> Inl e | Inr r \<Rightarrow> Inr (real_of_int r))
   \<and> measure_reading \<lparr>max_range = 100\<rparr> 70 0.99 (1 / 4) 7 = Inr 100"
  using measure_branches [of "0.95" "\<lparr>max_range = 100\<rparr>" 70 "1 / 4" 7]
    measure_branches [of "0.98" "\<lparr>max_range = 100\<rparr>" 70 "1 / 4" 7]
    measure_branches [of "0.99" "\<lparr>max_range = 100\<rparr>" 70 "1 / 4" 7]
  by simp

lemma measure_reading_by_branch:
  "measure_reading s expected_dist p z d =
     (case measure_branch p of
        Hit \<Rightarrow> Inr (hit_measure expected_dist z)
      | Random \<Rightarrow> (case random_measure s d of Inl e \<Rightarrow> Inl e | Inr r \<Rightarrow> Inr (real_of_int r))
      | Failure \<Rightarrow> Inr (real_of_int (failure_measure s)))"
  by (simp add: measure_reading_def measure_branch_def)

lemma random_branch_draws:
  "{p. 0 \<le> p \<and> p < 1 \<and> measure_branch p = Random} = {0.95<..0.98}"
  by (auto simp: measure_branch_def split: if_splits)

lemma random_measure_eq:
  "0 \<le> max_range s \<Longrightarrow> max_range s < 2 ^ 63 \<Longrightarrow>
     random_measure s d = Inr (int d mod (max_range s + 1))"
  by (simp add: random_measure_def np_random_randint_def)

lemma random_measure_range:
  "0 \<le> max_range s \<Longrightarrow> max_range s < 2 ^ 63 \<Longrightarrow>
     \<exists>r. random_measure s d = Inr r \<and> 0 \<le> r \<and> r \<le> max_range s"
proof -
  assume m: "0 \<le> max_range s" "max_range s < 2 ^ 63"
  then have "int d mod (max_range s + 1) < max_range s + 1"
    by (intro pos_mod_bound) simp
  with m show ?thesis
    by (simp add: random_measure_eq)
qed

lemma random_measure_value:
  "0 \<le> v \<Longrightarrow> v \<le> max_range s \<Longrightarrow> max_range s < 2 ^ 63 \<Longrightarrow>
     random_measure s (nat v) = Inr v"
  by (simp add: random_measure_eq)

lemma random_measure_unique:
  assumes "0 \<le> v" "v \<le> max_range s" "max_range s < 2 ^ 63"
  shows "\<exists>!d. d \<le> nat (max_range s) \<and> random_measure s d = Inr v"
proof (rule ex1I [where a = "nat v"])
  show "nat v \<le> nat (max_range s) \<and> random_measure s (nat v) = Inr v"
    using assms by (simp add: random_measure_value)
next
  fix d assume d: "d \<le> nat (max_range s) \<and> random_measure s d = Inr v"
  with assms have "int d mod (max_range s + 1) = v"
    by (simp add: random_measure_eq)
  moreover from d assms have "int d < max_range s + 1"
    by linarith
  ultimately have "int d = v"
    by simp
  then show "d = nat v" by simp
qed

lemma random_measure_periodic:
  assumes "0 \<le> max_range s" "max_range s < 2 ^ 63"
  shows "random_measure s (d + nat (max_range s + 1)) = random_measure s d"
  using assms by (simp add: random_measure_eq add.commute)

lemma random_measure_negative:
  "max_range s < 0 \<Longrightarrow> random_measure s d = Inl ValueError"
  by (simp add: random_measure_def np_random_randint_def)

lemma random_measure_too_large:
  "2 ^ 63 \<le> max_range s \<Longrightarrow> random_measure s d = Inl ValueError"
  by (simp add: random_measure_def np_random_randint_def)

text \<open>
  Claim C5 as stated, that the random branch draws from the continuous interval from
  \<open>0\<close> to \<open>max_range\<close>, fails: with \<open>max_range = 100\<close> no draw makes the random branch
  return \<open>1 / 2\<close>, so not every point of the interval is a possible reading.
\<close>

theorem random_measure_not_continuous:
  "\<not> (\<forall>v. 0 \<le> v \<and> v \<le> 100 \<longrightarrow>
         (\<exists>p z d. 0.95 < p \<and> p \<le> 0.98 \<and> measure_reading \<lparr>max_range = 100\<rparr> 70 p z d = Inr v))"
proof
  assume "\<forall>v. 0 \<le> v \<and> v \<le> 100 \<longrightarrow>
         (\<exists>p z d. 0.95 < p \<and> p \<le> 0.98 \<and> measure_reading \<lparr>max_range = 100\<rparr> 70 p z d = Inr v)"
  then have "\<exists>p z d. 0.95 < p \<and> p \<le> 0.98
      \<and> measure_reading \<lparr>max_range = 100\<rparr> 70 p z d = Inr (1 / 2)"
    by (rule allE [where x = "1 / 2"]) simp
  then obtain p z d where "0.95 < p" "p \<le> 0.98"
    and r: "measure_reading \<lparr>max_range = 100\<rparr> 70 p z d = Inr (1 / 2)"
    by blast
  then have "\<exists>r. real_of_int r = 1 / 2"
    by (auto simp: measure_reading_def split: sum.splits)
  then obtain r :: int where "real_of_int r = 1 / 2" ..
  then have "real_of_int (2 * r) = real_of_int 1" by simp
  then have "2 * r = 1" by (simp only: of_int_eq_iff)
  then show False by presburger
qed

text \<open>
  Claim C5, amended. The random branch of \<open>measure\<close> is taken with probability
  \<open>0.03\<close>: the uniform draws of \<open>[0, 1)\<close> that select it are those of the interval
  from \<open>0.95\<close> (excluded) to \<open>0.98\<close> (included), of length \<open>0.03\<close>. For \<open>max_range\<close>
  from \<open>0\<close> to \<open>2 ^ 63 - 1\<close> the reading it returns is drawn uniformly from the
  integers from \<open>0\<close> to \<open>max_range\<close>, both included: it is such an integer, among the
  raw draws from \<open>0\<close> to \<open>max_range\<close> every such integer is returned for exactly one,
  and the reading repeats with period \<open>max_range + 1\<close> in the raw draw.
\<close>

theorem random_measure_integers:
  "0 \<le> max_range s \<Longrightarrow> max_range s < 2 ^ 63 \<Longrightarrow>
     {p. 0 \<le> p \<and> p < 1 \<and> measure_branch p = Random} = {0.95<..0.98}
     \<and> Sup {p. 0 \<le> p \<and> p < 1 \<and> measure_branch p = Random}
         - Inf {p. 0 \<le> p \<and> p < 1 \<and> measure_branch p = Random} = 0.03
     \<and> (measure_branch p = Random \<longrightarrow>
          (\<exists>r. random_measure s d = Inr r \<and> 0 \<le> r \<and> r \<le> max_range s
             \<and> measure_reading s expected_dist p z d = Inr (real_of_int r)))
     \<and> (\<forall>v. 0 \<le> v \<and> v \<le> max_range s \<longrightarrow>
          (\<exists>!d'. d' \<le> nat (max_range s) \<and> random_measure s d' = Inr v))
     \<and> random_measure s (d + nat (max_range s + 1)) = random_measure s d"
proof (intro conjI allI impI)
  assume m: "0 \<le> max_range s" "max_range s < 2 ^ 63"
  show "{p. 0 \<le> p \<and> p < 1 \<and> measure_branch p = Random} = {0.95<..0.98}"
    by (rule random_branch_draws)
  have "Sup {0.95<..0.98::real} = 0.98"
    by (rule cSup_greaterThanAtMost) simp
  moreover have "Inf {0.95<..0.98::real} = 0.95"
    by (rule cInf_greaterThanAtMost) simp
  ultimately show "Sup {p. 0 \<le> p \<and> p < 1 \<and> measure_branch p = Random}
         - Inf {p. 0 \<le> p \<and> p < 1 \<and> measure_branch p = Random} = 0.03"
    by (simp only: random_branch_draws)
  show "\<exists>r. random_measure s d = Inr r \<and> 0 \<le> r \<and> r \<le> max_range s
             \<and> measure_reading s expected_dist p z d = Inr (real_of_int r)"
    if "measure_branch p = Random"
  proof -
    from random_measure_range [OF m, of d] obtain r
      where r: "random_measure s d = Inr r" "0 \<le> r" "r \<le> max_range s" by blast
    with that show ?thesis
      by (simp add: measure_reading_by_branch)
  qed
  show "\<exists>!d'. d' \<le> nat (max_range s) \<and> random_measure s d' = Inr v"
    if "0 \<le> v \<and> v \<le> max_range s" for v
    using that m(2) by (simp add: random_measure_unique)
  show "random_measure s (d + nat (max_range s + 1)) = random_measure s d"
    using m by (rule random_measure_periodic)
qed

theorem random_measure_integers_witness:
  "random_measure \<lparr>max_range = 100\<rparr> 205 = Inr 3
   \<and> measure_reading \<lparr>max_range = 100\<rparr> 70 0.97 0 205 = Inr 3
   \<and> (\<exists>!d'. d' \<le> 100 \<and> random_measure \<lparr>max_range = 100\<rparr> d' = Inr 100)
   \<and> random_measure \<lparr>max_range = 100\<rparr> (205 + 101) = Inr 3"
proof -
  have v: "random_measure \<lparr>max_range = 100\<rparr> 205 = Inr 3"
    by (simp add: random_measure_def np_random_randint_def)
  have b: "measure_branch 0.97 = Random"
    by (simp add: measure_branch_def)
  have m: "0 \<le> max_range \<lparr>max_range = 100\<rparr>" "max_range \<lparr>max_range = 100\<rparr> < 2 ^ 63"
    by simp_all
  from random_measure_integers [OF m, of "0.97" 205 70 0] v b show ?thesis
    by simp
qed

text \<open>
  Claim C10. For a sensor with an integer \<open>max_range\<close> from \<open>1\<close> to \<open>2 ^ 63 - 1\<close>,
  some draw makes the random branch of \<open>measure\<close> return exactly \<open>max_range\<close>, and
  \<open>lookup_prob\<close> gives a reading equal to \<open>max_range\<close> the additional \<open>0.02\<close> of the
  failure branch. (From \<open>2 ^ 63\<close> on, the integer draw of the random branch raises
  \<open>ValueError\<close>.)
\<close>

theorem random_measure_reaches_max_range:
  "0 < max_range s \<Longrightarrow> max_range s < 2 ^ 63 \<Longrightarrow>
     (\<exists>d. random_measure s d = Inr (max_range s)
        \<and> (0.95 < p \<and> p \<le> 0.98 \<longrightarrow>
             measure_reading s expected_dist p z d = Inr (real_of_int (max_range s))))
     \<and> lookup_prob s e (real_of_int (max_range s)) =
           Inr (0.95 * gaussian_density e 1 (real_of_int (max_range s))
                + 0.03 * (1 / real_of_int (max_range s)) + 0.02)"
proof
  assume m: "0 < max_range s" "max_range s < 2 ^ 63"
  then have "random_measure s (nat (max_range s)) = Inr (max_range s)"
    by (simp add: random_measure_value)
  then show "\<exists>d. random_measure s d = Inr (max_range s)
        \<and> (0.95 < p \<and> p \<le> 0.98 \<longrightarrow>
             measure_reading s expected_dist p z d = Inr (real_of_int (max_range s)))"
    by (intro exI [where x = "nat (max_range s)"]) (simp add: measure_reading_def)
next
  assume m: "0 < max_range s"
  then show "lookup_prob s e (real_of_int (max_range s)) =
           Inr (0.95 * gaussian_density e 1 (real_of_int (max_range s))
                + 0.03 * (1 / real_of_int (max_range s)) + 0.02)"
    by (simp add: lookup_prob_likelihood likelihood_def)
qed

theorem random_measure_reaches_max_range_witness:
  "random_measure \<lparr>max_range = 100\<rparr> 100 = Inr 100
   \<and> measure_reading \<lparr>max_range = 100\<rparr> 70 0.97 0 100 = Inr 100
   \<and> lookup_prob \<lparr>max_range = 100\<rparr> 70 100 =
        Inr (0.95 * gaussian_density 70 1 100 + 0.03 * (1 / 100) + 0.02)"
proof -
  have v: "random_measure \<lparr>max_range = 100\<rparr> 100 = Inr 100"
    by (simp add: random_measure_def np_random_randint_def)
  then have r: "measure_reading \<lparr>max_range = 100\<rparr> 70 0.97 0 100 = Inr 100"
    by (simp add: measure_reading_def)
  have m: "0 < max_range \<lparr>max_range = 100\<rparr>" "max_range \<lparr>max_range = 100\<rparr> < 2 ^ 63"
    by simp_all
  from random_measure_reaches_max_range [OF m, of "0.97" 70 0 70] v r
  show ?thesis
    by simp
qed

text \<open>
  Claim C9 as stated, that a \<open>max_range\<close> of zero or less is rejected with an error
  before any sampling or casting, fails: the constructor accepts \<open>0\<close> and \<open>-5\<close>, the
  failure branch of \<open>measure\<close> then returns the negative range as a reading, and the ray
  caster casts with \<open>max_range = 0\<close> and returns a distance.
\<close>

theorem max_range_not_validated:
  "LidarSensor_init 0 = Inr \<lparr>max_range = 0\<rparr>
   \<and> LidarSensor_init (- 5) = Inr \<lparr>max_range = - 5\<rparr>
   \<and> measure_reading \<lparr>max_range = - 5\<rparr> 70 0.99 0 0 = Inr (- 5)
   \<and> get_distance exact_fpu bresenham \<lparr>nrows = 3, ncols = 3, cell = \<lambda>r c. 0\<rparr>
        \<lparr>max_range = 0\<rparr> 1 1 0 = Inr (0, (1, 1))"
proof -
  have m: "float_range (max_range \<lparr>max_range = 0\<rparr>)"
    by (rule float_range_small) simp
  have "bresenham 1 1 1 1 = [(1, 1)]"
    by code_simp
  then have cells: "ray_cells exact_fpu bresenham \<lparr>max_range = 0\<rparr> 1 1 0 = [(1, 1)]"
    by (simp add: ray_cells_def ray_end_def py_int_def)
  have "get_distance exact_fpu bresenham \<lparr>nrows = 3, ncols = 3, cell = \<lambda>r c. 0\<rparr>
        \<lparr>max_range = 0\<rparr> 1 1 0 = Inr (0, (1, 1))"
    using m by (simp add: get_distance_walk cells ray_end_def inbounds_def grid_at_def
        np_index_def)
  then show ?thesis
    by (simp add: LidarSensor_init_def measure_reading_def failure_measure_def)
qed

text \<open>
  Claim C9, amended. A \<open>max_range\<close> of zero or less is not rejected when it is
  supplied: the constructor stores it and raises nothing, and the ray caster casts
  with it and returns a result (as long as it converts to a float). It is rejected
  only later and only on two paths: \<open>lookup_prob\<close> raises \<open>ZeroDivisionError\<close> when
  \<open>max_range\<close> is \<open>0\<close>, and the random branch of \<open>measure\<close> raises \<open>ValueError\<close> when
  \<open>max_range\<close> is negative.
\<close>

theorem max_range_errors_late:
  "m \<le> 0 \<Longrightarrow>
     LidarSensor_init m = Inr \<lparr>max_range = m\<rparr>
     \<and> (float_range m \<longrightarrow> (\<exists>r. get_distance fp line g \<lparr>max_range = m\<rparr> x y angle = Inr r))
     \<and> (m = 0 \<longrightarrow> lookup_prob \<lparr>max_range = m\<rparr> e md = Inl ZeroDivisionError)
     \<and> (m < 0 \<longrightarrow> random_measure \<lparr>max_range = m\<rparr> d = Inl ValueError)"
proof (intro conjI impI)
  show "LidarSensor_init m = Inr \<lparr>max_range = m\<rparr>"
    by (simp add: LidarSensor_init_def)
  show "\<exists>r. get_distance fp line g \<lparr>max_range = m\<rparr> x y angle = Inr r" if "float_range m"
    using that by (simp only: get_distance_walk lidar.simps walk_cells_total)
  show "lookup_prob \<lparr>max_range = m\<rparr> e md = Inl ZeroDivisionError" if "m = 0"
    using that by (simp add: lookup_prob_def)
  show "random_measure \<lparr>max_range = m\<rparr> d = Inl ValueError" if "m < 0"
    using that by (simp add: random_measure_negative)
qed

theorem max_range_errors_late_witness:
  "LidarSensor_init 0 = Inr \<lparr>max_range = 0\<rparr>
   \<and> (\<exists>r. get_distance exact_fpu bresenham \<lparr>nrows = 3, ncols = 3, cell = \<lambda>r c. 0\<rparr>
         \<lparr>max_range = 0\<rparr> 1 1 0 = Inr r)
   \<and> lookup_prob \<lparr>max_range = 0\<rparr> 70 71 = Inl ZeroDivisionError
   \<and> LidarSensor_init (- 5) = Inr \<lparr>max_range = - 5\<rparr>
   \<and> random_measure \<lparr>max_range = - 5\<rparr> 3 = Inl ValueError"
proof -
  have z: "(0::int) \<le> 0" and n: "(- 5::int) \<le> 0"
    by simp_all
  have m: "float_range 0"
    by (rule float_range_small) simp
  from max_range_errors_late [OF z, of exact_fpu bresenham
      "\<lparr>nrows = 3, ncols = 3, cell = \<lambda>r c. 0\<rparr>" 1 1 0 70 71 3]
    max_range_errors_late [OF n, of exact_fpu bresenham
      "\<lparr>nrows = 3, ncols = 3, cell = \<lambda>r c. 0\<rparr>" 1 1 0 70 71 3] m
  show ?thesis
    by simp
qed

subsection \<open>The rasteriser stays in the box\<close>





subsection \<open>Bounds\<close>










lemma get_distance_total:
  "float_range (max_range s) \<Longrightarrow> \<exists>dst loc. get_distance fp line g s x y angle = Inr (dst, loc)"
proof -
  assume "float_range (max_range s)"
  then obtain r where "get_distance fp line g s x y angle = Inr r"
    using walk_cells_total by (simp only: get_distance_walk) blast
  then show ?thesis by (cases r) blast
qed




lemma shoot_loop_total:
  assumes "float_range (max_range s)"
  shows "\<exists>ds. shoot_loop fp line g s st k js = Inr ds \<and> length ds = length js"
proof (induction js)
  case Nil
  show ?case by simp
next
  case (Cons j js)
  obtain x y theta where st: "st = (x, y, theta)" by (cases st)
  obtain dst loc where d: "get_distance fp line g s x y (ray_angle theta k j) = Inr (dst, loc)"
    using get_distance_total [OF assms] by blast
  from Cons.IH obtain ds where "shoot_loop fp line g s st k js = Inr ds" "length ds = length js"
    by blast
  with st d show ?case by simp
qed


lemma shoot_rays_total:
  "float_range (max_range s) \<Longrightarrow> \<exists>ds. shoot_rays fp line g s st k = Inr ds \<and> length ds = k"
  using shoot_loop_total [of s fp line g st k "[0..<k]"] by (simp add: shoot_rays_def)






subsection \<open>Importance weights\<close>

lemma gaussian_density_le_half: "gaussian_density mu 1 x \<le> 1 / 2"
proof -
  have "2 \<le> sqrt (2 * pi)"
    using pi_ge_two by (intro real_le_rsqrt) simp
  then have "1 / sqrt (2 * pi) \<le> 1 / 2"
    by (intro divide_left_mono) simp_all
  moreover have "exp (- ((x - mu)\<^sup>2) / 2) \<le> 1"
    by simp
  moreover have "0 \<le> 1 / sqrt (2 * pi)"
    by simp
  ultimately have "1 / sqrt (2 * pi) * exp (- ((x - mu)\<^sup>2) / 2) \<le> 1 / 2 * 1"
    by (intro mult_mono) simp_all
  then show ?thesis
    by (simp add: gaussian_density_def)
qed

lemma likelihood_le_one: "0 < max_range s \<Longrightarrow> likelihood s e m \<le> 1"
proof -
  assume "0 < max_range s"
  then have "1 \<le> real_of_int (max_range s)"
    by linarith
  then have "1 / real_of_int (max_range s) \<le> 1"
    by simp
  then have u: "0.03 * (1 / real_of_int (max_range s)) \<le> 0.03 * 1"
    by (intro mult_left_mono) simp_all
  have g: "0.95 * gaussian_density e 1 m \<le> 0.95 * (1 / 2)"
    using gaussian_density_le_half [of e m] by (intro mult_left_mono) simp_all
  have f: "(if m = real_of_int (max_range s) then 0.02 else (0::real)) \<le> 0.02"
    by simp
  have "likelihood s e m \<le> 0.95 * (1 / 2) + 0.03 * 1 + 0.02"
    unfolding likelihood_def using g u f by (intro add_mono)
  then show ?thesis
    by simp
qed

lemma importance_loop_fold:
  "max_range s \<noteq> 0 \<Longrightarrow>
     \<exists>w'. importance_loop fp s w ps = Inr w'
        \<and> py_float w' = foldl (fp_mul fp) (py_float w) (map (\<lambda>(e, m). likelihood s e m) ps)
        \<and> (ps = [] \<longrightarrow> w' = w) \<and> (ps \<noteq> [] \<longrightarrow> \<not> is_pyint w')"
proof (induction ps arbitrary: w)
  case Nil
  show ?case by simp
next
  case (Cons q ps)
  obtain e m where q: "q = (e, m)" by (cases q)
  from Cons.IH [OF Cons.prems, of "py_imul fp w (likelihood s e m)"] obtain w'
    where w': "importance_loop fp s (py_imul fp w (likelihood s e m)) ps = Inr w'"
      "py_float w' = foldl (fp_mul fp) (py_float (py_imul fp w (likelihood s e m)))
          (map (\<lambda>(e, m). likelihood s e m) ps)"
      "ps = [] \<longrightarrow> w' = py_imul fp w (likelihood s e m)"
      "ps \<noteq> [] \<longrightarrow> \<not> is_pyint w'"
    by blast
  have "\<not> is_pyint w'"
    using w'(3,4) by (cases "ps = []") (simp_all add: py_imul_def)
  with w'(1,2) q Cons.prems show ?case
    by (simp add: lookup_prob_likelihood py_imul_def)
qed

lemma foldl_mult_prod_list:
  fixes a :: real
  shows "foldl (\<lambda>a b. a * b) a xs = a * prod_list xs"
  by (induction xs arbitrary: a) (simp_all add: mult.assoc)

lemma importance_value:
  assumes "max_range s \<noteq> 0" and "float_range (max_range s)"
  shows "\<exists>eds w. shoot_rays fp line g s st (length mds) = Inr eds \<and> length eds = length mds
           \<and> importance fp line g s st mds = Inr w
           \<and> py_float w = foldl (fp_mul fp) 1 (map (\<lambda>(e, m). likelihood s e m) (zip eds mds))
           \<and> (mds \<noteq> [] \<longrightarrow> \<not> is_pyint w)"
proof -
  obtain eds where eds: "shoot_rays fp line g s st (length mds) = Inr eds"
      "length eds = length mds"
    using shoot_rays_total [OF assms(2)] by blast
  from importance_loop_fold [OF assms(1), of fp "PyInt 1" "zip eds mds"] obtain w
    where w: "importance_loop fp s (PyInt 1) (zip eds mds) = Inr w"
      "py_float w = foldl (fp_mul fp) (py_float (PyInt 1))
          (map (\<lambda>(e, m). likelihood s e m) (zip eds mds))"
      "zip eds mds \<noteq> [] \<longrightarrow> \<not> is_pyint w"
    by blast
  have "mds \<noteq> [] \<longrightarrow> zip eds mds \<noteq> []"
    using eds(2) by (cases eds; cases mds) simp_all
  with eds w show ?thesis
    by (simp add: importance_def)
qed

text \<open>
  Claim C2. For a sensor whose \<open>max_range\<close> is not zero (and converts to a float),
  \<open>importance\<close> casts \<open>len(measured_distances)\<close> rays with \<open>shoot_rays\<close> and returns
  the running product, starting from \<open>1\<close> and taken in the order of the rays with the
  float multiplication, of the values \<open>lookup_prob\<close> gives for the pairs of expected
  and measured distance; without rounding this is the product of those values. It is a
  product, not a sum or an average.
\<close>

theorem importance_product:
  "max_range s \<noteq> 0 \<Longrightarrow> float_range (max_range s) \<Longrightarrow>
     \<exists>eds ps w. shoot_rays fp line g s st (length mds) = Inr eds
        \<and> length eds = length mds \<and> length ps = length mds
        \<and> (\<forall>i < length mds. lookup_prob s (eds ! i) (mds ! i) = Inr (ps ! i))
        \<and> importance fp line g s st mds = Inr w
        \<and> py_float w = foldl (fp_mul fp) 1 ps
        \<and> ((\<forall>a b. fp_mul fp a b = a * b) \<longrightarrow> py_float w = prod_list ps)"
proof -
  assume m: "max_range s \<noteq> 0" and fl: "float_range (max_range s)"
  from importance_value [OF m fl, of fp line g st mds] obtain eds w
    where eds: "shoot_rays fp line g s st (length mds) = Inr eds" "length eds = length mds"
      and w: "importance fp line g s st mds = Inr w"
        "py_float w = foldl (fp_mul fp) 1 (map (\<lambda>(e, m). likelihood s e m) (zip eds mds))"
    by blast
  let ?ps = "map (\<lambda>(e, m). likelihood s e m) (zip eds mds)"
  have "length ?ps = length mds"
    using eds(2) by simp
  moreover have "\<forall>i < length mds. lookup_prob s (eds ! i) (mds ! i) = Inr (?ps ! i)"
    using eds(2) m by (simp add: lookup_prob_likelihood)
  moreover have "(\<forall>a b. fp_mul fp a b = a * b) \<longrightarrow> py_float w = prod_list ?ps"
  proof
    assume "\<forall>a b. fp_mul fp a b = a * b"
    then have "fp_mul fp = (\<lambda>a b. a * b)"
      by (intro ext) simp
    with w(2) show "py_float w = prod_list ?ps"
      by (simp add: foldl_mult_prod_list)
  qed
  ultimately show ?thesis
    using eds w by blast
qed

lemma list_of_two:
  assumes "length xs = 2"
  shows "xs = [xs ! 0, xs ! 1]"
proof -
  from assms obtain a b where "xs = [a, b]"
    by (cases xs; cases "tl xs") auto
  then show ?thesis by simp
qed

lemma bres_1_0_11_0:
  "bresenham 1 0 11 0 =
     [(1, 0), (2, 0), (3, 0), (4, 0), (5, 0), (6, 0), (7, 0), (8, 0), (9, 0), (10, 0), (11, 0)]"
  by code_simp

lemma bres_1_0_m9_0:
  "bresenham 1 0 (- 9) 0 =
     [(1, 0), (0, 0), (- 1, 0), (- 2, 0), (- 3, 0), (- 4, 0), (- 5, 0), (- 6, 0), (- 7, 0),
      (- 8, 0), (- 9, 0)]"
  by code_simp

lemma get_distance_wall_east:
  "get_distance exact_fpu bresenham
     \<lparr>nrows = 1, ncols = 5, cell = \<lambda>r c. if c = 3 then 1 else 0\<rparr> \<lparr>max_range = 10\<rparr> 1 0 0
     = Inr (2, (3, 0))"
proof -
  have m: "float_range (max_range \<lparr>max_range = 10\<rparr>)"
    by (rule float_range_small) simp
  have "ray_cells exact_fpu bresenham \<lparr>max_range = 10\<rparr> 1 0 0 = bresenham 1 0 11 0"
    by (simp add: ray_cells_def ray_end_def exact_fpu_def py_int_def)
  with m show ?thesis
    by (simp add: get_distance_walk bres_1_0_11_0 inbounds_def grid_at_def np_index_def
        np_norm2_def)
qed

lemma get_distance_wall_west:
  "get_distance exact_fpu bresenham
     \<lparr>nrows = 1, ncols = 5, cell = \<lambda>r c. if c = 3 then 1 else 0\<rparr> \<lparr>max_range = 10\<rparr> 1 0 pi
     = Inr (10, (- 9, 0))"
proof -
  have m: "float_range (max_range \<lparr>max_range = 10\<rparr>)"
    by (rule float_range_small) simp
  have "ray_cells exact_fpu bresenham \<lparr>max_range = 10\<rparr> 1 0 pi = bresenham 1 0 (- 9) 0"
    by (simp add: ray_cells_def ray_end_def exact_fpu_def py_int_def)
  with m show ?thesis
    by (simp add: get_distance_walk bres_1_0_m9_0 ray_end_def exact_fpu_def inbounds_def
        grid_at_def np_index_def)
qed

lemma ray_angle_two: "ray_angle 0 2 0 = 0" "ray_angle 0 2 1 = pi"
  by (simp_all add: ray_angle_def np_radians_def py_fmod_def)

lemma shoot_rays_wall:
  "shoot_rays exact_fpu bresenham
     \<lparr>nrows = 1, ncols = 5, cell = \<lambda>r c. if c = 3 then 1 else 0\<rparr> \<lparr>max_range = 10\<rparr> (1, 0, 0)
     2 = Inr [2, 10]"
proof -
  have "[0..<2] = [0, 1]"
    by (simp add: upt_rec)
  then show ?thesis
    by (simp only: shoot_rays_def shoot_loop.simps ray_angle_two get_distance_wall_east
        get_distance_wall_west sum.case prod.case)
qed

theorem importance_product_witness:
  "\<exists>w. importance exact_fpu bresenham
          \<lparr>nrows = 1, ncols = 5, cell = \<lambda>r c. if c = 3 then 1 else 0\<rparr> \<lparr>max_range = 10\<rparr>
          (1, 0, 0) [2, 10] = Inr w
      \<and> py_float w = (0.95 * gaussian_density 2 1 2 + 0.03 * (1 / 10) + 0)
                    * (0.95 * gaussian_density 10 1 10 + 0.03 * (1 / 10) + 0.02)"
proof -
  let ?g = "\<lparr>nrows = 1, ncols = 5, cell = \<lambda>r c. if c = 3 then (1::real) else 0\<rparr>"
  let ?s = "\<lparr>max_range = 10\<rparr>"
  have m: "max_range ?s \<noteq> 0" by simp
  have fl: "float_range (max_range ?s)"
    by (rule float_range_small) simp
  from importance_product [OF m fl, of exact_fpu bresenham ?g "(1, 0, 0)" "[2, 10]"]
  obtain eds ps w
    where eds: "shoot_rays exact_fpu bresenham ?g ?s (1, 0, 0) (length [2, 10 :: real]) = Inr eds"
      and len: "length ps = length [2, 10 :: real]"
      and ps: "\<forall>i < length [2, 10 :: real].
          lookup_prob ?s (eds ! i) ([2, 10] ! i) = Inr (ps ! i)"
      and w: "importance exact_fpu bresenham ?g ?s (1, 0, 0) [2, 10] = Inr w"
      and prod: "(\<forall>a b. fp_mul exact_fpu a b = a * b) \<longrightarrow> py_float w = prod_list ps"
    by blast
  have "length [2, 10 :: real] = 2"
    by simp
  with eds have "shoot_rays exact_fpu bresenham ?g ?s (1, 0, 0) 2 = Inr eds"
    by (simp only:)
  with shoot_rays_wall have e: "eds = [2, 10]"
    by simp
  from ps have "lookup_prob ?s (eds ! 0) ([2, 10] ! 0) = Inr (ps ! 0)"
    "lookup_prob ?s (eds ! 1) ([2, 10] ! 1) = Inr (ps ! 1)"
    by (auto dest: spec [where x = 0] spec [where x = 1])
  with e have p: "ps ! 0 = likelihood ?s 2 2" "ps ! 1 = likelihood ?s 10 10"
    by (simp_all add: lookup_prob_likelihood)
  from len have "ps = [ps ! 0, ps ! 1]"
    by (intro list_of_two) simp
  then have "prod_list ps = ps ! 0 * ps ! 1"
    by (metis list.simps(8,9) mult.right_neutral prod_list.Cons prod_list.Nil)
  moreover from prod have "py_float w = prod_list ps"
    by (simp add: exact_fpu_def)
  ultimately have "py_float w = likelihood ?s 2 2 * likelihood ?s 10 10"
    using p by simp
  with w show ?thesis
    by (simp add: likelihood_def)
qed

subsection \<open>Normalised weights\<close>

lemma rounding_model_mul:
  "rounding_model u eps eta n fp \<Longrightarrow> 0 \<le> a \<Longrightarrow> a \<le> 1 \<Longrightarrow> 0 \<le> b \<Longrightarrow> b \<le> 1
     \<Longrightarrow> 0 \<le> fp_mul fp a b \<and> fp_mul fp a b \<le> 1"
  unfolding rounding_model_def by blast

lemma rounding_model_div:
  "rounding_model u eps eta n fp \<Longrightarrow> 0 \<le> a \<Longrightarrow> 0 < b \<Longrightarrow> a \<le> 2 * b
     \<Longrightarrow> 0 \<le> fp_div fp a b \<and> \<bar>fp_div fp a b - a / b\<bar> \<le> u * (a / b) + eta"
  unfolding rounding_model_def by blast

lemma rounding_model_sum:
  "rounding_model u eps eta n fp \<Longrightarrow> length xs = n \<Longrightarrow> \<forall>x \<in> set xs. 0 \<le> x \<and> x \<le> 1
     \<Longrightarrow> \<bar>fp_sum fp xs - sum_list xs\<bar> \<le> eps * sum_list xs"
  unfolding rounding_model_def by blast

lemma rounding_model_params:
  "rounding_model u eps eta n fp \<Longrightarrow> 0 \<le> u \<and> 0 \<le> eps \<and> eps \<le> 1 / 2 \<and> 0 \<le> eta"
  unfolding rounding_model_def by blast

lemma foldl_unit:
  assumes "rounding_model u eps eta n fp"
  shows "0 \<le> a \<Longrightarrow> a \<le> 1 \<Longrightarrow> \<forall>x \<in> set xs. 0 \<le> x \<and> x \<le> 1
    \<Longrightarrow> 0 \<le> foldl (fp_mul fp) a xs \<and> foldl (fp_mul fp) a xs \<le> 1"
proof (induction xs arbitrary: a)
  case Nil
  then show ?case by simp
next
  case (Cons x xs)
  from Cons.prems have x: "0 \<le> x" "x \<le> 1" and rest: "\<forall>x \<in> set xs. 0 \<le> x \<and> x \<le> 1"
    by simp_all
  from rounding_model_mul [OF assms Cons.prems(1,2) x]
  have "0 \<le> fp_mul fp a x" "fp_mul fp a x \<le> 1"
    by simp_all
  from Cons.IH [OF this rest] show ?case
    by simp
qed

lemma importance_unit:
  assumes "0 < max_range s" and "float_range (max_range s)" and "mds \<noteq> []"
    and "rounding_model u eps eta n fp"
  shows "\<exists>r. importance fp line g s st mds = Inr (PyFloat r) \<and> 0 \<le> r \<and> r \<le> 1"
proof -
  from assms(1) have "max_range s \<noteq> 0" by simp
  from importance_value [OF this assms(2), of fp line g st mds] obtain eds w
    where w: "importance fp line g s st mds = Inr w"
      "py_float w = foldl (fp_mul fp) 1 (map (\<lambda>(e, m). likelihood s e m) (zip eds mds))"
      "\<not> is_pyint w"
    using assms(3) by blast
  have "\<forall>x \<in> set (map (\<lambda>(e, m). likelihood s e m) (zip eds mds)). 0 \<le> x \<and> x \<le> 1"
    using likelihood_pos [OF assms(1)] likelihood_le_one [OF assms(1)]
    by (auto simp: less_imp_le)
  from foldl_unit [OF assms(4) _ _ this, of 1]
  have "0 \<le> py_float w \<and> py_float w \<le> 1"
    using w(2) by simp
  with w(1,3) show ?thesis
    by (cases w) simp_all
qed

lemma collect_weights_unit:
  assumes "0 < max_range s" and "float_range (max_range s)" and "mds \<noteq> []"
    and "rounding_model u eps eta n fp"
  shows "\<exists>raw. collect_weights fp line g s sts mds = Inr (map PyFloat raw)
           \<and> length raw = length sts
           \<and> (\<forall>i < length sts.
                 importance fp line g s (sts ! i) mds = Inr (PyFloat (raw ! i))
                 \<and> 0 \<le> raw ! i \<and> raw ! i \<le> 1)"
proof (induction sts)
  case Nil
  show ?case by simp
next
  case (Cons st sts)
  from importance_unit [OF assms, of line g st] obtain r
    where r: "importance fp line g s st mds = Inr (PyFloat r)" "0 \<le> r" "r \<le> 1" by blast
  from Cons.IH obtain raw
    where raw: "collect_weights fp line g s sts mds = Inr (map PyFloat raw)"
      "length raw = length sts"
      "\<forall>i < length sts. importance fp line g s (sts ! i) mds = Inr (PyFloat (raw ! i))
          \<and> 0 \<le> raw ! i \<and> raw ! i \<le> 1"
    by blast
  have "\<forall>i < length (st # sts).
      importance fp line g s ((st # sts) ! i) mds = Inr (PyFloat ((r # raw) ! i))
      \<and> 0 \<le> (r # raw) ! i \<and> (r # raw) ! i \<le> 1"
  proof (intro allI impI)
    fix i assume "i < length (st # sts)"
    then show "importance fp line g s ((st # sts) ! i) mds = Inr (PyFloat ((r # raw) ! i))
        \<and> 0 \<le> (r # raw) ! i \<and> (r # raw) ! i \<le> 1"
      using r raw(3) by (cases i) simp_all
  qed
  moreover have "collect_weights fp line g s (st # sts) mds = Inr (map PyFloat (r # raw))"
    using r raw(1) by simp
  moreover have "length (r # raw) = length (st # sts)"
    using raw(2) by simp
  ultimately show ?case by blast
qed

lemma np_array_floats:
  "np_array (map PyFloat raw) = FloatArray raw"
proof (cases raw)
  case Nil
  then show ?thesis by (simp add: np_array_def)
next
  case (Cons r rs)
  have "map (py_float \<circ> PyFloat) raw = raw"
    by (induction raw) simp_all
  with Cons show ?thesis by (simp add: np_array_def)
qed

lemma sensor_fusion_floats:
  assumes "collect_weights fp line g s samples mds = Inr (map PyFloat raw)"
  shows "sensor_fusion fp line g s samples mds
    = Inr (map (\<lambda>x. np_fdiv fp x (fp_sum fp raw)) raw)"
  using assms by (simp add: sensor_fusion_def np_array_floats)

lemma sum_list_nonneg_real:
  fixes xs :: "real list"
  shows "\<forall>x \<in> set xs. 0 \<le> x \<Longrightarrow> 0 \<le> sum_list xs"
  by (induction xs) simp_all

lemma member_le_sum_list_real:
  fixes xs :: "real list"
  shows "\<forall>x \<in> set xs. 0 \<le> x \<Longrightarrow> y \<in> set xs \<Longrightarrow> y \<le> sum_list xs"
proof (induction xs)
  case Nil
  then show ?case by simp
next
  case (Cons x xs)
  then have rest: "\<forall>x \<in> set xs. 0 \<le> x" and x: "0 \<le> x"
    by simp_all
  from rest have "0 \<le> sum_list xs"
    by (rule sum_list_nonneg_real)
  with Cons x rest show ?case
    by (cases "y = x") (auto simp: add_increasing add_increasing2)
qed

lemma sum_list_zero_real:
  fixes xs :: "real list"
  shows "\<forall>x \<in> set xs. x = 0 \<Longrightarrow> sum_list xs = 0"
  by (induction xs) simp_all

lemma sum_list_divide:
  fixes xs :: "real list"
  shows "sum_list (map (\<lambda>x. x / t) xs) = sum_list xs / t"
  by (induction xs) (simp_all add: add_divide_distrib)

lemma quotients_error:
  fixes q :: "real \<Rightarrow> real"
  assumes "\<forall>x \<in> set xs. \<bar>q x - x / t\<bar> \<le> u * (x / t) + eta"
  shows "\<bar>sum_list (map q xs) - sum_list xs / t\<bar> \<le> u * (sum_list xs / t) + real (length xs) * eta"
  using assms
proof (induction xs)
  case Nil
  show ?case by simp
next
  case (Cons x xs)
  then have x: "\<bar>q x - x / t\<bar> \<le> u * (x / t) + eta"
    and rest: "\<bar>sum_list (map q xs) - sum_list xs / t\<bar>
        \<le> u * (sum_list xs / t) + real (length xs) * eta"
    by simp_all
  have "sum_list (map q (x # xs)) - sum_list (x # xs) / t
      = (q x - x / t) + (sum_list (map q xs) - sum_list xs / t)"
    by (simp add: add_divide_distrib)
  then have "\<bar>sum_list (map q (x # xs)) - sum_list (x # xs) / t\<bar>
      \<le> \<bar>q x - x / t\<bar> + \<bar>sum_list (map q xs) - sum_list xs / t\<bar>"
    by (simp only: abs_triangle_ineq)
  also have "\<dots> \<le> (u * (x / t) + eta) + (u * (sum_list xs / t) + real (length xs) * eta)"
    using x rest by (rule add_mono)
  also have "\<dots> = u * (sum_list (x # xs) / t) + real (length (x # xs)) * eta"
    by (simp add: algebra_simps add_divide_distrib)
  finally show ?case .
qed

lemma normalise_tolerance:
  assumes rm: "rounding_model u eps eta (length raw) fp"
    and unit: "\<forall>x \<in> set raw. 0 \<le> x \<and> x \<le> 1"
    and nz: "\<exists>x \<in> set raw. x \<noteq> 0"
  shows "0 < fp_sum fp raw"
    and "\<forall>x \<in> set raw. 0 \<le> fp_div fp x (fp_sum fp raw)"
    and "\<bar>sum_list (map (\<lambda>x. fp_div fp x (fp_sum fp raw)) raw) - 1\<bar>
           \<le> (u + eps) / (1 - eps) + real (length raw) * eta"
proof -
  let ?S = "sum_list raw" and ?T = "fp_sum fp raw"
  from rounding_model_params [OF rm]
  have u: "0 \<le> u" and eps: "0 \<le> eps" "eps \<le> 1 / 2" and eta: "0 \<le> eta"
    by simp_all
  from unit have nonneg: "\<forall>x \<in> set raw. 0 \<le> x"
    by simp
  from nz obtain z where z: "z \<in> set raw" "z \<noteq> 0"
    by blast
  with nonneg have "0 < z"
    by (simp add: less_le)
  with member_le_sum_list_real [OF nonneg z(1)] have S: "0 < ?S"
    by simp
  have err: "\<bar>?T - ?S\<bar> \<le> eps * ?S"
    using rounding_model_sum [OF rm _ unit] by simp
  then have lower: "(1 - eps) * ?S \<le> ?T"
    by (simp add: algebra_simps abs_le_iff)
  have "0 < (1 - eps) * ?S"
    using eps S by (intro mult_pos_pos) simp_all
  with lower show T: "0 < ?T"
    by simp
  have "1 / 2 * ?S \<le> (1 - eps) * ?S"
    using eps S by (intro mult_right_mono) simp_all
  with lower have half: "?S \<le> 2 * ?T"
    by simp
  have quot: "0 \<le> fp_div fp x ?T \<and> \<bar>fp_div fp x ?T - x / ?T\<bar> \<le> u * (x / ?T) + eta"
    if "x \<in> set raw" for x
  proof -
    from that nonneg have "0 \<le> x" by simp
    moreover from member_le_sum_list_real [OF nonneg that] half have "x \<le> 2 * ?T"
      by simp
    ultimately show ?thesis
      using rounding_model_div [OF rm _ T] by simp
  qed
  then show "\<forall>x \<in> set raw. 0 \<le> fp_div fp x ?T"
    by simp
  from quot have "\<forall>x \<in> set raw. \<bar>fp_div fp x ?T - x / ?T\<bar> \<le> u * (x / ?T) + eta"
    by simp
  then have a: "\<bar>sum_list (map (\<lambda>x. fp_div fp x ?T) raw) - ?S / ?T\<bar>
      \<le> u * (?S / ?T) + real (length raw) * eta"
    by (rule quotients_error)
  have "\<bar>?S / ?T - 1\<bar> = \<bar>?S - ?T\<bar> / ?T"
    using T by (simp add: field_simps)
  also have "\<dots> \<le> eps * ?S / ?T"
    using err T by (simp add: divide_right_mono abs_minus_commute)
  finally have b: "\<bar>?S / ?T - 1\<bar> \<le> eps * (?S / ?T)"
    by simp
  have ratio: "?S / ?T \<le> 1 / (1 - eps)"
  proof -
    have "?S * (1 - eps) \<le> ?T * 1"
      using lower by (simp add: mult.commute)
    moreover have "0 < 1 - eps"
      using eps by simp
    ultimately show ?thesis
      using T by (simp add: frac_le_eq field_simps)
  qed
  have "\<bar>sum_list (map (\<lambda>x. fp_div fp x ?T) raw) - 1\<bar>
      \<le> \<bar>sum_list (map (\<lambda>x. fp_div fp x ?T) raw) - ?S / ?T\<bar> + \<bar>?S / ?T - 1\<bar>"
    by simp
  also have "\<dots> \<le> (u * (?S / ?T) + real (length raw) * eta) + eps * (?S / ?T)"
    using a b by (rule add_mono)
  also have "\<dots> = (u + eps) * (?S / ?T) + real (length raw) * eta"
    by (simp add: distrib_right add_divide_distrib)
  also have "\<dots> \<le> (u + eps) * (1 / (1 - eps)) + real (length raw) * eta"
    using ratio u eps by (intro add_mono mult_left_mono) simp_all
  finally show "\<bar>sum_list (map (\<lambda>x. fp_div fp x ?T) raw) - 1\<bar>
      \<le> (u + eps) / (1 - eps) + real (length raw) * eta"
    by simp
qed

text \<open>
  Outside the claim's measurement vectors of \<open>k\<close> readings, \<open>k\<close> at least \<open>1\<close>: with
  no measurement at all \<open>importance\<close> returns its initial weight, the Python int \<open>1\<close>,
  \<open>np.array\<close> builds an integer array, and the in-place division raises.
\<close>

lemma sensor_fusion_no_measurements:
  "sensor_fusion fp line g s (st # sts) [] = Inl TypeError"
proof -
  have one: "importance fp line g s st' [] = Inr (PyInt 1)" for st'
    by (simp add: importance_def shoot_rays_def)
  have "\<exists>ws. collect_weights fp line g s sts' [] = Inr ws \<and> list_all is_pyint ws" for sts'
    by (induction sts') (auto simp: one)
  then obtain ws where "collect_weights fp line g s sts [] = Inr ws" "list_all is_pyint ws"
    by blast
  then show ?thesis
    by (simp add: sensor_fusion_def one np_array_def)
qed

text \<open>
  Claim C1. For a sensor with \<open>max_range\<close> above \<open>0\<close> (that converts to a float), a
  measurement vector of at least one reading and a list of \<open>n\<close> candidates, \<open>n\<close> at
  least \<open>1\<close>, \<open>sensor_fusion\<close> returns \<open>n\<close> weights in the order of the candidates:
  the weight of candidate \<open>i\<close> is the float quotient of its importance and the float
  sum of all importances. Unless every importance is exactly zero, every weight is a
  finite number that is not negative, and the weights sum to \<open>1\<close> within the tolerance
  \<open>(u + eps) / (1 - eps) + n * eta\<close> of the rounding model (\<open>0\<close> without rounding).
  In the degenerate case, which the underflow of the products reaches, every weight is
  \<open>nan\<close>.
\<close>

theorem sensor_fusion_normalised:
  "0 < max_range s \<Longrightarrow> float_range (max_range s) \<Longrightarrow> mds \<noteq> [] \<Longrightarrow> samples \<noteq> [] \<Longrightarrow>
   rounding_model u eps eta (length samples) fp \<Longrightarrow>
     \<exists>raw ws. sensor_fusion fp line g s samples mds = Inr ws
        \<and> length raw = length samples \<and> length ws = length samples
        \<and> (\<forall>i < length samples.
              importance fp line g s (samples ! i) mds = Inr (PyFloat (raw ! i))
              \<and> 0 \<le> raw ! i
              \<and> ws ! i = np_fdiv fp (raw ! i) (fp_sum fp raw))
        \<and> ((\<exists>i < length samples. raw ! i \<noteq> 0) \<longrightarrow>
              (\<forall>i < length samples. \<exists>q. ws ! i = Fin q \<and> 0 \<le> q)
              \<and> \<bar>sum_list (map fin_val ws) - 1\<bar>
                   \<le> (u + eps) / (1 - eps) + real (length samples) * eta)
        \<and> ((\<forall>i < length samples. raw ! i = 0) \<longrightarrow> (\<forall>i < length samples. ws ! i = NaN))"
proof -
  assume m: "0 < max_range s" and fl: "float_range (max_range s)" and mds: "mds \<noteq> []"
    and n: "samples \<noteq> []" and rm: "rounding_model u eps eta (length samples) fp"
  from collect_weights_unit [OF m fl mds rm, of line g samples] obtain raw
    where raw: "collect_weights fp line g s samples mds = Inr (map PyFloat raw)"
      "length raw = length samples"
      "\<forall>i < length samples.
          importance fp line g s (samples ! i) mds = Inr (PyFloat (raw ! i))
          \<and> 0 \<le> raw ! i \<and> raw ! i \<le> 1"
    by blast
  let ?T = "fp_sum fp raw"
  let ?ws = "map (\<lambda>x. np_fdiv fp x ?T) raw"
  have fusion: "sensor_fusion fp line g s samples mds = Inr ?ws"
    using raw(1) by (rule sensor_fusion_floats)
  have unit: "\<forall>x \<in> set raw. 0 \<le> x \<and> x \<le> 1"
    using raw(2,3) by (auto simp: in_set_conv_nth)
  from rm raw(2) have rm': "rounding_model u eps eta (length raw) fp"
    by simp
  have entries: "\<forall>i < length samples.
      importance fp line g s (samples ! i) mds = Inr (PyFloat (raw ! i))
      \<and> 0 \<le> raw ! i \<and> ?ws ! i = np_fdiv fp (raw ! i) ?T"
    using raw(2,3) by simp
  have regular: "(\<forall>i < length samples. \<exists>q. ?ws ! i = Fin q \<and> 0 \<le> q)
      \<and> \<bar>sum_list (map fin_val ?ws) - 1\<bar>
           \<le> (u + eps) / (1 - eps) + real (length samples) * eta"
    if "\<exists>i < length samples. raw ! i \<noteq> 0"
  proof -
    from that obtain i where "i < length samples" "raw ! i \<noteq> 0"
      by blast
    with raw(2) have "raw ! i \<in> set raw" "raw ! i \<noteq> 0"
      by simp_all
    then have nz: "\<exists>x \<in> set raw. x \<noteq> 0"
      by blast
    from normalise_tolerance [OF rm' unit nz]
    have T: "0 < ?T" and q: "\<forall>x \<in> set raw. 0 \<le> fp_div fp x ?T"
      and tol: "\<bar>sum_list (map (\<lambda>x. fp_div fp x ?T) raw) - 1\<bar>
           \<le> (u + eps) / (1 - eps) + real (length raw) * eta"
      by simp_all
    from T have fin: "?ws = map (\<lambda>x. Fin (fp_div fp x ?T)) raw"
      by (simp add: np_fdiv_def)
    have each: "\<forall>i < length samples. \<exists>q. ?ws ! i = Fin q \<and> 0 \<le> q"
      using q raw(2) by (simp add: fin)
    have eq: "map fin_val ?ws = map (\<lambda>x. fp_div fp x ?T) raw"
      by (simp add: fin)
    have "\<bar>sum_list (map fin_val ?ws) - 1\<bar>
        \<le> (u + eps) / (1 - eps) + real (length samples) * eta"
      using tol by (simp only: eq raw(2))
    with each show ?thesis
      by (intro conjI)
  qed
  have degenerate: "\<forall>i < length samples. ?ws ! i = NaN"
    if "\<forall>i < length samples. raw ! i = 0"
  proof -
    from that raw(2) have zero: "\<forall>x \<in> set raw. x = 0"
      by (auto simp: in_set_conv_nth)
    then have "sum_list raw = 0"
      by (rule sum_list_zero_real)
    with rounding_model_sum [OF rm' _ unit] have "?T = 0"
      by simp
    with that raw(2) show ?thesis
      by (simp add: np_fdiv_def)
  qed
  from fusion raw(2) entries regular degenerate show ?thesis
    by (intro exI [where x = raw] exI [where x = ?ws]) simp
qed

subsection \<open>Concrete weights\<close>

lemma rounding_model_exact: "rounding_model 0 0 0 n exact_fpu"
  by (simp add: rounding_model_def exact_fpu_def mult_le_one)

lemma rounding_model_underflow: "rounding_model 0 0 0 n underflow_fpu"
  by (simp add: rounding_model_def underflow_fpu_def mult_le_one)

lemma bres_0_0_m10_0:
  "bresenham 0 0 (- 10) 0 =
     [(0, 0), (- 1, 0), (- 2, 0), (- 3, 0), (- 4, 0), (- 5, 0), (- 6, 0), (- 7, 0), (- 8, 0),
      (- 9, 0), (- 10, 0)]"
  by code_simp

lemma get_distance_wall_east_far:
  "get_distance exact_fpu bresenham
     \<lparr>nrows = 1, ncols = 5, cell = \<lambda>r c. if c = 3 then 1 else 0\<rparr> \<lparr>max_range = 10\<rparr> 0 0 0
     = Inr (3, (3, 0))"
proof -
  have m: "float_range (max_range \<lparr>max_range = 10\<rparr>)"
    by (rule float_range_small) simp
  have "ray_cells exact_fpu bresenham \<lparr>max_range = 10\<rparr> 0 0 0 = bresenham 0 0 10 0"
    by (simp add: ray_cells_def ray_end_def exact_fpu_def py_int_def)
  with m show ?thesis
    by (simp add: get_distance_walk bres_0_0_10_0 inbounds_def grid_at_def np_index_def
        np_norm2_def)
qed

lemma get_distance_wall_west_far:
  "get_distance exact_fpu bresenham
     \<lparr>nrows = 1, ncols = 5, cell = \<lambda>r c. if c = 3 then 1 else 0\<rparr> \<lparr>max_range = 10\<rparr> 0 0 pi
     = Inr (10, (- 10, 0))"
proof -
  have m: "float_range (max_range \<lparr>max_range = 10\<rparr>)"
    by (rule float_range_small) simp
  have "ray_cells exact_fpu bresenham \<lparr>max_range = 10\<rparr> 0 0 pi = bresenham 0 0 (- 10) 0"
    by (simp add: ray_cells_def ray_end_def exact_fpu_def py_int_def)
  with m show ?thesis
    by (simp add: get_distance_walk bres_0_0_m10_0 ray_end_def exact_fpu_def inbounds_def
        grid_at_def np_index_def)
qed

lemma shoot_rays_wall_far:
  "shoot_rays exact_fpu bresenham
     \<lparr>nrows = 1, ncols = 5, cell = \<lambda>r c. if c = 3 then 1 else 0\<rparr> \<lparr>max_range = 10\<rparr> (0, 0, 0)
     2 = Inr [3, 10]"
proof -
  have "[0..<2] = [0, 1]"
    by (simp add: upt_rec)
  then show ?thesis
    by (simp only: shoot_rays_def shoot_loop.simps ray_angle_two get_distance_wall_east_far
        get_distance_wall_west_far sum.case prod.case)
qed

lemma importance_wall:
  "importance exact_fpu bresenham
     \<lparr>nrows = 1, ncols = 5, cell = \<lambda>r c. if c = 3 then 1 else 0\<rparr> \<lparr>max_range = 10\<rparr>
     (1, 0, 0) [2, 10]
   = Inr (PyFloat (likelihood \<lparr>max_range = 10\<rparr> 2 2 * likelihood \<lparr>max_range = 10\<rparr> 10 10))"
  "importance exact_fpu bresenham
     \<lparr>nrows = 1, ncols = 5, cell = \<lambda>r c. if c = 3 then 1 else 0\<rparr> \<lparr>max_range = 10\<rparr>
     (0, 0, 0) [2, 10]
   = Inr (PyFloat (likelihood \<lparr>max_range = 10\<rparr> 3 2 * likelihood \<lparr>max_range = 10\<rparr> 10 10))"
proof -
  have l: "length [2, 10 :: real] = 2"
    by simp
  have m: "max_range \<lparr>max_range = 10\<rparr> \<noteq> 0"
    by simp
  show "importance exact_fpu bresenham
     \<lparr>nrows = 1, ncols = 5, cell = \<lambda>r c. if c = 3 then 1 else 0\<rparr> \<lparr>max_range = 10\<rparr>
     (1, 0, 0) [2, 10]
   = Inr (PyFloat (likelihood \<lparr>max_range = 10\<rparr> 2 2 * likelihood \<lparr>max_range = 10\<rparr> 10 10))"
    unfolding importance_def l shoot_rays_wall
    by (simp add: lookup_prob_likelihood [OF m] py_imul_def exact_fpu_def)
  show "importance exact_fpu bresenham
     \<lparr>nrows = 1, ncols = 5, cell = \<lambda>r c. if c = 3 then 1 else 0\<rparr> \<lparr>max_range = 10\<rparr>
     (0, 0, 0) [2, 10]
   = Inr (PyFloat (likelihood \<lparr>max_range = 10\<rparr> 3 2 * likelihood \<lparr>max_range = 10\<rparr> 10 10))"
    unfolding importance_def l shoot_rays_wall_far
    by (simp add: lookup_prob_likelihood [OF m] py_imul_def exact_fpu_def)
qed

text \<open>The underflow of a long product: a hundred readings that all miss.\<close>

lemma likelihood_miss: 
  "0 < likelihood \<lparr>max_range = 100\<rparr> 100 0" "likelihood \<lparr>max_range = 100\<rparr> 100 0 \<le> 1 / 2000"
proof -
  show "0 < likelihood \<lparr>max_range = 100\<rparr> 100 0"
    by (rule likelihood_pos) simp
  have "1 + 5000 \<le> exp (5000::real)"
    by (rule exp_ge_add_one_self)
  then have "1 / exp (5000::real) \<le> 1 / 5001"
    by (intro divide_left_mono) simp_all
  then have e: "exp (- 5000 :: real) \<le> 1 / 5001"
    by (simp add: exp_minus inverse_eq_divide)
  have "2 \<le> sqrt (2 * pi)"
    using pi_ge_two by (intro real_le_rsqrt) simp
  then have r: "1 / sqrt (2 * pi) \<le> 1 / 2"
    by (intro divide_left_mono) simp_all
  have "1 / sqrt (2 * pi) * exp (- 5000 :: real) \<le> 1 / 2 * (1 / 5001)"
    using r e by (intro mult_mono) simp_all
  moreover have "gaussian_density 100 1 0 = 1 / sqrt (2 * pi) * exp (- 5000 :: real)"
    by (simp add: gaussian_density_def)
  ultimately have "gaussian_density 100 1 0 \<le> 1 / 10002"
    by simp
  then have "0.95 * gaussian_density 100 1 0 \<le> 0.95 * (1 / 10002)"
    by (intro mult_left_mono) simp_all
  then show "likelihood \<lparr>max_range = 100\<rparr> 100 0 \<le> 1 / 2000"
    by (simp add: likelihood_def)
qed

lemma underflow_fold_le:
  assumes "0 \<le> L" "L \<le> c" "c \<le> 1"
  shows "0 \<le> a \<Longrightarrow> a \<le> b \<Longrightarrow>
    0 \<le> foldl (fp_mul underflow_fpu) a (replicate n L)
    \<and> foldl (fp_mul underflow_fpu) a (replicate n L) \<le> b * c ^ n"
proof (induction n arbitrary: a b)
  case 0
  then show ?case by simp
next
  case (Suc n)
  have "a * L \<le> b * c"
    using Suc.prems assms by (intro mult_mono) simp_all
  moreover have "0 \<le> a * L"
    using Suc.prems assms by simp
  moreover have "0 \<le> b * c"
    using Suc.prems assms by simp
  ultimately have "0 \<le> fp_mul underflow_fpu a L" "fp_mul underflow_fpu a L \<le> b * c"
    by (simp_all add: underflow_fpu_def)
  from Suc.IH [OF this] show ?case
    by (simp add: mult.assoc)
qed

lemma tiny: "(1 / 2000 :: real) ^ 100 \<le> 1 / 2 ^ 1075"
proof -
  have "(2::real) ^ 1075 \<le> 2000 ^ 100"
    by simp
  then have "1 / (2000::real) ^ 100 \<le> 1 / 2 ^ 1075"
    by (intro divide_left_mono) simp_all
  then show ?thesis
    by (simp add: power_one_over)
qed

lemma underflow_product:
  assumes "0 < L" "L \<le> 1 / 2000"
  shows "foldl (fp_mul underflow_fpu) 1 (replicate 100 L) = 0"
proof -
  let ?acc = "foldl (fp_mul underflow_fpu) 1 (replicate 99 L)"
  have c: "(1 / 2000 :: real) \<le> 1"
    by simp
  from underflow_fold_le [OF _ assms(2) c, of 1 1 99] assms(1)
  have acc: "0 \<le> ?acc" "?acc \<le> (1 / 2000) ^ 99"
    by simp_all
  have "?acc * L \<le> (1 / 2000) ^ 99 * (1 / 2000)"
    using acc assms by (intro mult_mono) simp_all
  also have "\<dots> = (1 / 2000 :: real) ^ Suc 99"
    by (simp only: power_Suc2)
  also have "\<dots> = (1 / 2000 :: real) ^ 100"
  proof -
    have "Suc 99 = 100" by simp
    then show ?thesis by (simp only:)
  qed
  finally have "?acc * L \<le> 1 / 2 ^ 1075"
    using tiny by simp
  moreover have "0 \<le> ?acc * L"
    using acc assms by simp
  ultimately have "fp_mul underflow_fpu ?acc L = 0"
    by (simp add: underflow_fpu_def)
  moreover have "replicate 100 L = replicate 99 L @ [L]"
  proof -
    have "replicate (Suc 99) L = replicate 99 L @ [L]"
      by (simp only: replicate_append_same replicate.simps)
    moreover have "Suc 99 = 100" by simp
    ultimately show ?thesis by (simp only:)
  qed
  ultimately show ?thesis
    by simp
qed

lemma get_distance_empty_grid:
  assumes "float_range (max_range s)" and "\<forall>r c. cell g r c \<noteq> 1"
  shows "get_distance fp line g s x y angle
    = Inr (real_of_int (max_range s), ray_end fp s x y angle)"
proof -
  have "\<forall>c \<in> set (walked g (ray_cells fp line s x y angle)). \<not> occupied g c"
    using assms(2) empty_grid_free walked_inbounds by blast
  with assms(1) show ?thesis
    by (rule get_distance_free)
qed

lemma shoot_loop_empty_grid:
  assumes "float_range (max_range s)" and "\<forall>r c. cell g r c \<noteq> 1"
  shows "shoot_loop fp line g s st k js = Inr (replicate (length js) (real_of_int (max_range s)))"
proof (induction js)
  case Nil
  show ?case by simp
next
  case (Cons j js)
  obtain x y theta where st: "st = (x, y, theta)" by (cases st)
  with Cons show ?case
    by (simp add: get_distance_empty_grid [OF assms])
qed

lemma shoot_rays_empty_grid:
  assumes "float_range (max_range s)" and "\<forall>r c. cell g r c \<noteq> 1"
  shows "shoot_rays fp line g s st k = Inr (replicate k (real_of_int (max_range s)))"
  using shoot_loop_empty_grid [OF assms, of fp line st k "[0..<k]"] by (simp add: shoot_rays_def)

lemma importance_underflow:
  "importance underflow_fpu bresenham \<lparr>nrows = 3, ncols = 3, cell = \<lambda>r c. 0\<rparr>
     \<lparr>max_range = 100\<rparr> st (replicate 100 0) = Inr (PyFloat 0)"
proof -
  let ?g = "\<lparr>nrows = 3, ncols = 3, cell = \<lambda>r c. (0::real)\<rparr>"
  let ?s = "\<lparr>max_range = 100\<rparr>"
  have m: "max_range ?s \<noteq> 0"
    by simp
  have fl: "float_range (max_range ?s)"
    by (rule float_range_small) simp
  have empty: "\<forall>r c. cell ?g r c \<noteq> 1"
    by simp
  have len: "length (replicate 100 (0::real)) = 100"
    by simp
  from importance_value [OF m fl, of underflow_fpu bresenham ?g st "replicate 100 0"]
  obtain eds w
    where eds: "shoot_rays underflow_fpu bresenham ?g ?s st (length (replicate 100 (0::real)))
        = Inr eds"
      and w: "importance underflow_fpu bresenham ?g ?s st (replicate 100 0) = Inr w"
        "py_float w = foldl (fp_mul underflow_fpu) 1
            (map (\<lambda>(e, m). likelihood ?s e m) (zip eds (replicate 100 0)))"
        "\<not> is_pyint w"
    by auto
  from eds have "eds = replicate 100 100"
    by (simp only: len shoot_rays_empty_grid [OF fl empty]) simp
  then have "map (\<lambda>(e, m). likelihood ?s e m) (zip eds (replicate 100 0))
      = replicate 100 (likelihood ?s 100 0)"
    by (simp add: zip_replicate)
  with w(2) have "py_float w = 0"
    by (simp only: underflow_product [OF likelihood_miss])
  with w(1,3) show ?thesis
    by (cases w) simp_all
qed

theorem sensor_fusion_normalised_witness:
  "sensor_fusion exact_fpu bresenham
      \<lparr>nrows = 1, ncols = 5, cell = \<lambda>r c. if c = 3 then 1 else 0\<rparr> \<lparr>max_range = 10\<rparr>
      [(1, 0, 0), (0, 0, 0)] [2, 10]
    = Inr [Fin (likelihood \<lparr>max_range = 10\<rparr> 2 2 * likelihood \<lparr>max_range = 10\<rparr> 10 10
                / (likelihood \<lparr>max_range = 10\<rparr> 2 2 * likelihood \<lparr>max_range = 10\<rparr> 10 10
                   + likelihood \<lparr>max_range = 10\<rparr> 3 2 * likelihood \<lparr>max_range = 10\<rparr> 10 10)),
           Fin (likelihood \<lparr>max_range = 10\<rparr> 3 2 * likelihood \<lparr>max_range = 10\<rparr> 10 10
                / (likelihood \<lparr>max_range = 10\<rparr> 2 2 * likelihood \<lparr>max_range = 10\<rparr> 10 10
                   + likelihood \<lparr>max_range = 10\<rparr> 3 2 * likelihood \<lparr>max_range = 10\<rparr> 10 10))]
   \<and> sensor_fusion underflow_fpu bresenham \<lparr>nrows = 3, ncols = 3, cell = \<lambda>r c. 0\<rparr>
      \<lparr>max_range = 100\<rparr> [(1, 1, 0), (2, 1, 0)] (replicate 100 0) = Inr [NaN, NaN]"
proof
  let ?g = "\<lparr>nrows = 1, ncols = 5, cell = \<lambda>r c. if c = 3 then (1::real) else 0\<rparr>"
  let ?s = "\<lparr>max_range = 10\<rparr>"
  let ?samples = "[(1, 0, 0), (0, 0, 0)] :: pose list"
  let ?a = "likelihood ?s 2 2 * likelihood ?s 10 10"
  let ?b = "likelihood ?s 3 2 * likelihood ?s 10 10"
  have m: "0 < max_range ?s" and mds: "[2, 10 :: real] \<noteq> []" and n: "?samples \<noteq> []"
    by simp_all
  have fl: "float_range (max_range ?s)"
    by (rule float_range_small) simp
  from sensor_fusion_normalised [OF m fl mds n rounding_model_exact, of bresenham ?g]
  obtain raw ws
    where fusion: "sensor_fusion exact_fpu bresenham ?g ?s ?samples [2, 10] = Inr ws"
      and len: "length raw = length ?samples" "length ws = length ?samples"
      and all: "\<forall>i < length ?samples.
              importance exact_fpu bresenham ?g ?s (?samples ! i) [2, 10] = Inr (PyFloat (raw ! i))
              \<and> 0 \<le> raw ! i
              \<and> ws ! i = np_fdiv exact_fpu (raw ! i) (fp_sum exact_fpu raw)"
    by blast
  from len have len: "length raw = 2" "length ws = 2"
    by simp_all
  from all have entries:
    "importance exact_fpu bresenham ?g ?s (1, 0, 0) [2, 10] = Inr (PyFloat (raw ! 0))"
    "importance exact_fpu bresenham ?g ?s (0, 0, 0) [2, 10] = Inr (PyFloat (raw ! 1))"
    "ws ! 0 = np_fdiv exact_fpu (raw ! 0) (fp_sum exact_fpu raw)"
    "ws ! 1 = np_fdiv exact_fpu (raw ! 1) (fp_sum exact_fpu raw)"
    by (auto dest: spec [where x = 0] spec [where x = 1])
  from entries(1,2) importance_wall have r: "raw ! 0 = ?a" "raw ! 1 = ?b"
    by simp_all
  with list_of_two [OF len(1)] have raw: "raw = [?a, ?b]"
    by simp
  have pos: "0 < ?a" "0 < ?b"
    by (simp_all add: likelihood_pos)
  then have "?a + ?b \<noteq> 0"
    by simp
  with entries(3,4) raw have "ws ! 0 = Fin (?a / (?a + ?b))" "ws ! 1 = Fin (?b / (?a + ?b))"
    by (simp_all add: np_fdiv_def exact_fpu_def)
  with list_of_two [OF len(2)] have "ws = [Fin (?a / (?a + ?b)), Fin (?b / (?a + ?b))]"
    by simp
  with fusion show "sensor_fusion exact_fpu bresenham ?g ?s ?samples [2, 10]
      = Inr [Fin (?a / (?a + ?b)), Fin (?b / (?a + ?b))]"
    by simp
next
  let ?g = "\<lparr>nrows = 3, ncols = 3, cell = \<lambda>r c. (0::real)\<rparr>"
  let ?s = "\<lparr>max_range = 100\<rparr>"
  let ?samples = "[(1, 1, 0), (2, 1, 0)] :: pose list"
  let ?mds = "replicate 100 (0::real)"
  have m: "0 < max_range ?s" and mds: "?mds \<noteq> []" and n: "?samples \<noteq> []"
    by simp_all
  have fl: "float_range (max_range ?s)"
    by (rule float_range_small) simp
  from sensor_fusion_normalised [OF m fl mds n rounding_model_underflow, of bresenham ?g]
  obtain raw ws
    where fusion: "sensor_fusion underflow_fpu bresenham ?g ?s ?samples ?mds = Inr ws"
      and len: "length raw = length ?samples" "length ws = length ?samples"
      and all: "\<forall>i < length ?samples.
              importance underflow_fpu bresenham ?g ?s (?samples ! i) ?mds
                = Inr (PyFloat (raw ! i))
              \<and> 0 \<le> raw ! i
              \<and> ws ! i = np_fdiv underflow_fpu (raw ! i) (fp_sum underflow_fpu raw)"
      and degenerate: "(\<forall>i < length ?samples. raw ! i = 0)
          \<longrightarrow> (\<forall>i < length ?samples. ws ! i = NaN)"
    by blast
  from all have "\<forall>i < length ?samples. raw ! i = 0"
    by (simp only: importance_underflow) simp
  with degenerate have nan: "\<forall>i < length ?samples. ws ! i = NaN"
    by blast
  from len have "length ws = 2"
    by simp
  from list_of_two [OF this] nan have "ws = [NaN, NaN]"
    by (auto dest: spec [where x = 0] spec [where x = 1])
  with fusion show "sensor_fusion underflow_fpu bresenham ?g ?s ?samples ?mds = Inr [NaN, NaN]"
    by simp
qed

end
